theory Spec2Isabelle
  imports Main "HOL-Library.Log_Nat" "HOL-Library.Sublist"
begin

section \<open>Results of Python calls\<close>

text \<open>
  A call either returns a value, raises an exception, or (for the remote services and the
  learner, which wait on other processes) never returns. The three exceptions named here
  are the ones the arithmetic of \<open>compute_init_iteration\<close> can raise; \<open>Fault\<close> stands for
  any exception raised inside a collaborator of \<open>train\<close>.
\<close>

datatype error = TypeError | ZeroDivisionError | OverflowError | Fault string

datatype 'a outcome = Returns 'a | Raises error | Blocks

fun and_then :: "'a outcome \<Rightarrow> ('a \<Rightarrow> 'b outcome) \<Rightarrow> 'b outcome" where
  "and_then (Returns v) f = f v"
| "and_then (Raises e) f = Raises e"
| "and_then Blocks f = Blocks"

section \<open>Python's float arithmetic\<close>

text \<open>
  The operator \<open>/\<close> of the source is true division: \<open>int / int\<close> and \<open>float / int\<close> both
  give a binary64 float, and \<open>int(...)\<close> cuts the fraction off. A finite float is a rational
  number; \<open>binary64\<close> rounds a rational to the nearest float with a 53-bit significand
  (ties to the even significand, smallest exponent \<open>-1022\<close>, so that the subnormal range has
  the spacing \<open>2 powi (-1074)\<close>). The sign of a zero is not kept: \<open>int()\<close> maps both zeros
  to \<open>0\<close>.
\<close>

definition ilog2 :: "rat \<Rightarrow> int" where
  \<comment> \<open>\<open>\<lfloor>log\<^sub>2 x\<rfloor>\<close> for \<open>0 < x\<close>\<close>
  "ilog2 x = (if 1 \<le> x then bitlen \<lfloor>x\<rfloor> - 1 else - bitlen (\<lceil>1 / x\<rceil> - 1))"

definition round_half_even :: "rat \<Rightarrow> int" where
  "round_half_even y =
     (let f = \<lfloor>y\<rfloor>; d = y - of_int f
      in if d < 1 / 2 then f else if 1 / 2 < d then f + 1 else if even f then f else f + 1)"

definition ulp64 :: "rat \<Rightarrow> rat" where
  \<comment> \<open>the spacing of the floats around \<open>x \<noteq> 0\<close>\<close>
  "ulp64 x = 2 powi (max (ilog2 \<bar>x\<bar>) (- 1022) - 52)"

definition binary64 :: "rat \<Rightarrow> rat" where
  "binary64 x = (if x = 0 then 0 else of_int (round_half_even (x / ulp64 x)) * ulp64 x)"

definition finite64 :: "rat \<Rightarrow> bool" where
  \<comment> \<open>a rounded value of magnitude \<open>2 ^ 1024\<close> or more is not a float\<close>
  "finite64 r \<longleftrightarrow> \<bar>r\<bar> < 2 ^ 1024"

definition float_of_int :: "int \<Rightarrow> rat outcome" where
  \<comment> \<open>the conversion of the right operand of \<open>float / int\<close>\<close>
  "float_of_int n =
     (let r = binary64 (of_int n) in if finite64 r then Returns r else Raises OverflowError)"

definition int_truediv :: "int \<Rightarrow> int \<Rightarrow> rat outcome" where
  \<comment> \<open>\<open>a / b\<close> on two ints: the exact quotient, rounded once\<close>
  "int_truediv a b =
     (if b = 0 then Raises ZeroDivisionError
      else let r = binary64 (of_int a / of_int b)
           in if finite64 r then Returns r else Raises OverflowError)"

definition float_truediv :: "rat \<Rightarrow> int \<Rightarrow> rat outcome" where
  \<comment> \<open>\<open>x / n\<close> on a float and an int: \<open>n\<close> is converted first, then the floats are divided\<close>
  "float_truediv x n =
     and_then (float_of_int n)
       (\<lambda>y. if y = 0 then Raises ZeroDivisionError else Returns (binary64 (x / y)))"

definition int_of_float :: "rat \<Rightarrow> int" where
  \<comment> \<open>\<open>int(x)\<close>: truncation toward zero\<close>
  "int_of_float x = (if 0 \<le> x then \<lfloor>x\<rfloor> else \<lceil>x\<rceil>)"

section \<open>The iteration scheduler\<close>

text \<open>
  \<^verbatim>\<open>
  def compute_init_iteration(init_train_step, sequence_length,
                             num_episodes_per_iteration, num_epochs,
                             per_replica_batch_size, num_replicas_in_sync):
    return int(init_train_step * per_replica_batch_size * num_replicas_in_sync /
               sequence_length / num_episodes_per_iteration / num_epochs)
  \<close>
  The operators associate to the left. \<open>per_replica_batch_size\<close> is an int or \<open>None\<close>
  (the docstring allows \<open>None\<close>), and \<open>int * None\<close> raises \<open>TypeError\<close> before anything is
  divided.
\<close>

definition compute_init_iteration ::
  "int \<Rightarrow> int \<Rightarrow> int \<Rightarrow> int \<Rightarrow> int option \<Rightarrow> int \<Rightarrow> int outcome" where
  "compute_init_iteration init_train_step sequence_length num_episodes_per_iteration
      num_epochs per_replica_batch_size num_replicas_in_sync =
     (case per_replica_batch_size of
        None \<Rightarrow> Raises TypeError
      | Some batch \<Rightarrow>
          and_then (int_truediv (init_train_step * batch * num_replicas_in_sync) sequence_length)
            (\<lambda>q1. and_then (float_truediv q1 num_episodes_per_iteration)
              (\<lambda>q2. and_then (float_truediv q2 num_epochs)
                (\<lambda>q3. Returns (int_of_float q3)))))"

text \<open>
  The formula as the specification words it, on exact numbers:
  \<open>floor(init_train_step * minibatch_size * num_replicas / sequence_length /
  episodes_per_iteration / num_epochs)\<close>. It is compared with the function above.
\<close>

definition spec_init_iteration :: "int \<Rightarrow> int \<Rightarrow> int \<Rightarrow> int \<Rightarrow> int \<Rightarrow> int \<Rightarrow> int" where
  "spec_init_iteration init_train_step sequence_length num_episodes_per_iteration
      num_epochs per_replica_batch_size num_replicas_in_sync =
     \<lfloor>rat_of_int (init_train_step * per_replica_batch_size * num_replicas_in_sync)
        / of_int sequence_length / of_int num_episodes_per_iteration / of_int num_epochs\<rfloor>"

section \<open>The training driver\<close>

text \<open>
  \<open>train\<close> creates two TensorFlow variables, builds an agent, pushes the variables to the
  variable container once, builds the replay buffer and the learner, and then runs the loop.
  The variables are held by reference: the learner receives \<open>train_step\<close> and \<open>model_id\<close> and
  may assign them, and each push sends the values they hold at that moment. The model keeps
  the two counters as fields and everything else the collaborators own (the agent and its
  policy variables, the two Reverb services, the file system, the learner's dataset) in one
  opaque component \<open>ext\<close>.
\<close>

record 'x world =
  train_step :: int
  model_id :: int
  ext :: 'x

text \<open>
  The dictionary \<open>variables\<close> of the source has the three keys \<open>POLICY_KEY\<close>,
  \<open>TRAIN_STEP_KEY\<close> and \<open>'model_id'\<close>; a snapshot is what one push sends for them.
\<close>

record 'p snapshot =
  snap_policy :: 'p
  snap_train_step :: int
  snap_model_id :: int

text \<open>
  The collaborators of \<open>train\<close>. None of them is part of the file; each is a parameter that
  returns, raises or blocks. The constructors and the two services act on \<open>ext\<close> only: the
  agent and the saved-model trigger receive \<open>train_step\<close> but only keep the reference, and
  the variable container and the replay buffer receive neither counter. The learner is
  constructed with both counters, so its constructor and its two methods act on the whole
  \<open>world\<close>. \<open>summary_scalar\<close> takes the name and the step of \<open>tf.summary.scalar\<close>; the data
  it writes is a clock difference and is left out.
\<close>

record ('p, 'x) collab =
  num_replicas_in_sync :: int
  create_circuit_ppo_grl_agent :: "'x \<Rightarrow> 'x outcome"
  create_circuit_ppo_agent :: "'x \<Rightarrow> 'x outcome"
  agent_initialize :: "'x \<Rightarrow> 'x outcome"
  policy_saved_model_trigger :: "'x \<Rightarrow> 'x outcome"
  collect_policy_variables :: "'x \<Rightarrow> 'p"
  variable_container :: "'x \<Rightarrow> 'x outcome"
  push :: "'p snapshot \<Rightarrow> 'x \<Rightarrow> 'x outcome"
  replay_buffer :: "'x \<Rightarrow> 'x outcome"
  create_learner :: "'x world \<Rightarrow> 'x world outcome"
  wait_for_data :: "'x world \<Rightarrow> 'x world outcome"
  run :: "'x world \<Rightarrow> 'x world outcome"
  clear :: "'x \<Rightarrow> 'x outcome"
  summary_scalar :: "string \<Rightarrow> int \<Rightarrow> 'x \<Rightarrow> 'x outcome"
  summary_flush :: "'x \<Rightarrow> 'x outcome"

text \<open>
  The arguments of \<open>train\<close> that its control flow reads. The directory, the two server
  addresses, the tensor specs, the networks and \<open>allow_variable_length_episodes\<close> are only
  handed on to collaborators.
\<close>

record config =
  sequence_length :: int
  rl_architecture :: string
  per_replica_batch_size :: "int option"
  num_epochs :: int
  num_iterations :: int
  num_episodes_per_iteration :: int
  init_train_step :: int

text \<open>
  What a run does is recorded as the list of the calls that completed, in order, together
  with the \<open>logging.info\<close> lines. A log line keeps its format string and its integer
  argument; the two lines that print clock differences keep the format string only.
\<close>

datatype 'p event =
    Info string "int option"
  | CreateGrlAgent
  | CreateAgent
  | AgentInitialize
  | SavedModelTrigger
  | VariableContainer
  | Push "'p snapshot"
  | ReplayBuffer
  | Learner
  | WaitForData
  | Run
  | Clear
  | SummaryScalar string int
  | SummaryFlush

record ('p, 'x) machine =
  vars :: "'x world"
  trace :: "'p event list"

datatype status = Normal | Raised error | Blocked

type_synonym ('p, 'x) result = "status \<times> ('p, 'x) machine"

definition then_do ::
  "('p, 'x) result \<Rightarrow> (('p, 'x) machine \<Rightarrow> ('p, 'x) result) \<Rightarrow> ('p, 'x) result" where
  \<comment> \<open>statement sequencing: an exception or a call that never returns ends the run\<close>
  "then_do r f = (case fst r of Normal \<Rightarrow> f (snd r) | Raised e \<Rightarrow> r | Blocked \<Rightarrow> r)"

primrec run_steps ::
  "(('p, 'x) machine \<Rightarrow> ('p, 'x) result) list \<Rightarrow> ('p, 'x) machine \<Rightarrow> ('p, 'x) result" where
  "run_steps [] s = (Normal, s)"
| "run_steps (f # fs) s = then_do (f s) (run_steps fs)"

definition info :: "string \<Rightarrow> int option \<Rightarrow> ('p, 'x) machine \<Rightarrow> ('p, 'x) result" where
  "info msg arg s = (Normal, s\<lparr>trace := trace s @ [Info msg arg]\<rparr>)"

definition call_ext ::
  "'p event \<Rightarrow> ('x \<Rightarrow> 'x outcome) \<Rightarrow> ('p, 'x) machine \<Rightarrow> ('p, 'x) result" where
  "call_ext ev f s =
     (case f (ext (vars s)) of
        Returns x \<Rightarrow> (Normal, s\<lparr>vars := (vars s)\<lparr>ext := x\<rparr>, trace := trace s @ [ev]\<rparr>)
      | Raises e \<Rightarrow> (Raised e, s)
      | Blocks \<Rightarrow> (Blocked, s))"

definition call_world ::
  "'p event \<Rightarrow> ('x world \<Rightarrow> 'x world outcome) \<Rightarrow> ('p, 'x) machine \<Rightarrow> ('p, 'x) result" where
  "call_world ev f s =
     (case f (vars s) of
        Returns w \<Rightarrow> (Normal, s\<lparr>vars := w, trace := trace s @ [ev]\<rparr>)
      | Raises e \<Rightarrow> (Raised e, s)
      | Blocks \<Rightarrow> (Blocked, s))"

text \<open>
  \<^verbatim>\<open>variable_container.push(variables)\<close>: the snapshot is read from the variables when the
  call is made.
\<close>

definition current_snapshot :: "('p, 'x) collab \<Rightarrow> 'x world \<Rightarrow> 'p snapshot" where
  "current_snapshot c w =
     \<lparr>snap_policy = collect_policy_variables c (ext w),
      snap_train_step = train_step w,
      snap_model_id = model_id w\<rparr>"

definition push_variables :: "('p, 'x) collab \<Rightarrow> ('p, 'x) machine \<Rightarrow> ('p, 'x) result" where
  "push_variables c s =
     call_ext (Push (current_snapshot c (vars s))) (push c (current_snapshot c (vars s))) s"

text \<open>
  Lines 133 to 139: the two variables are created and assigned.
  \<^verbatim>\<open>
    train_step = train_utils.create_train_step()
    train_step.assign(init_train_step)
    logging.info('Initialize train_step at %s', init_train_step)
    model_id = common.create_variable('model_id')
    # The model_id should equal to the iteration number.
    model_id.assign(init_iteration)
  \<close>
\<close>

definition assign_variables :: "int \<Rightarrow> int \<Rightarrow> ('p, 'x) machine \<Rightarrow> ('p, 'x) result" where
  "assign_variables step iteration s =
     (Normal, s\<lparr>vars := (vars s)\<lparr>train_step := step, model_id := iteration\<rparr>,
                trace := trace s @ [Info ''Initialize train_step at %s'' (Some step)]\<rparr>)"

text \<open>
  Lines 142 to 147: the agent constructor is chosen by \<open>rl_architecture\<close>.
\<close>

definition create_agent ::
  "('p, 'x) collab \<Rightarrow> string \<Rightarrow> ('p, 'x) machine \<Rightarrow> ('p, 'x) result" where
  "create_agent c architecture =
     (if architecture = ''generalization''
      then run_steps [info ''Using GRL agent networks.'' None,
                      call_ext CreateGrlAgent (create_circuit_ppo_grl_agent c)]
      else run_steps [info ''Using RL fully connected agent networks.'' None,
                      call_ext CreateAgent (create_circuit_ppo_agent c)])"

text \<open>
  Lines 130 to 248, everything between the computation of \<open>init_iteration\<close> and the loop:
  the log line, the variables, the agent, the saved-model trigger, the variable container
  and its first push, the replay buffer and the learner.
\<close>

definition train_setup ::
  "('p, 'x) collab \<Rightarrow> config \<Rightarrow> int \<Rightarrow> ('p, 'x) machine \<Rightarrow> ('p, 'x) result" where
  "train_setup c cfg init_iteration =
     run_steps
       [info ''Initialize iteration at: init_iteration %s.'' (Some init_iteration),
        assign_variables (init_train_step cfg) init_iteration,
        create_agent c (rl_architecture cfg),
        call_ext AgentInitialize (agent_initialize c),
        call_ext SavedModelTrigger (policy_saved_model_trigger c),
        call_ext VariableContainer (variable_container c),
        push_variables c,
        call_ext ReplayBuffer (replay_buffer c),
        call_world Learner (create_learner c)]"

text \<open>
  The loop body, lines 252 to 268: wait, train, push, clear, with the log lines between
  them.
  \<^verbatim>\<open>
    step_val = train_step.numpy()
    logging.info('Training. Iteration: %d', i)
    start_time = time.time()
    learner.wait_for_data()
    data_wait_time = time.time() - start_time
    logging.info('Data wait time sec: %s', data_wait_time)
    learner.run()
    num_steps = train_step.numpy() - step_val
    run_time = time.time() - start_time
    logging.info('Steps per sec: %s', num_steps / run_time)
    logging.info('Pushing variables at model_id: %d', model_id.numpy())
    variable_container.push(variables)
    logging.info('clearing replay buffer')
    reverb_replay_train.clear()
  \<close>
  The clock is not modelled. \<open>num_steps\<close> is a NumPy integer, so with NumPy's default
  error handling \<open>num_steps / run_time\<close> gives \<open>inf\<close> or \<open>nan\<close> with a warning when \<open>run_time\<close>
  is zero and does not raise.
\<close>

definition log_model_id :: "('p, 'x) machine \<Rightarrow> ('p, 'x) result" where
  "log_model_id s = info ''Pushing variables at model_id: %d'' (Some (model_id (vars s))) s"

definition iteration_phases ::
  "('p, 'x) collab \<Rightarrow> int \<Rightarrow> ('p, 'x) machine \<Rightarrow> ('p, 'x) result" where
  "iteration_phases c i =
     run_steps
       [info ''Training. Iteration: %d'' (Some i),
        call_world WaitForData (wait_for_data c),
        info ''Data wait time sec: %s'' None,
        call_world Run (run c),
        info ''Steps per sec: %s'' None,
        log_model_id,
        push_variables c,
        info ''clearing replay buffer'' None,
        call_ext Clear (clear c)]"

text \<open>
  The end of the loop body, lines 269 to 274. No statement of \<open>train\<close> is inside a
  \<open>try\<close>.
  \<^verbatim>\<open>
    with tf.name_scope('RunTime/'):
      tf.summary.scalar(
          name='data_wait_time_sec', data=data_wait_time, step=train_step)
      tf.summary.scalar(
          name='step_per_sec', data=num_steps / run_time, step=train_step)
    tf.summary.flush()
  \<close>
\<close>

definition write_scalar ::
  "('p, 'x) collab \<Rightarrow> string \<Rightarrow> ('p, 'x) machine \<Rightarrow> ('p, 'x) result" where
  "write_scalar c name s =
     call_ext (SummaryScalar name (train_step (vars s)))
       (summary_scalar c name (train_step (vars s))) s"

definition iteration_summaries :: "('p, 'x) collab \<Rightarrow> ('p, 'x) machine \<Rightarrow> ('p, 'x) result" where
  "iteration_summaries c =
     run_steps
       [write_scalar c ''data_wait_time_sec'',
        write_scalar c ''step_per_sec'',
        call_ext SummaryFlush (summary_flush c)]"

definition iteration :: "('p, 'x) collab \<Rightarrow> int \<Rightarrow> ('p, 'x) machine \<Rightarrow> ('p, 'x) result" where
  "iteration c i s = then_do (iteration_phases c i s) (iteration_summaries c)"

text \<open>
  \<^verbatim>\<open>for i in range(init_iteration, num_iterations):\<close> the loop runs over the list of
  indices.
\<close>

primrec train_loop ::
  "('p, 'x) collab \<Rightarrow> int list \<Rightarrow> ('p, 'x) machine \<Rightarrow> ('p, 'x) result" where
  "train_loop c [] s = (Normal, s)"
| "train_loop c (i # rest) s = then_do (iteration c i s) (train_loop c rest)"

text \<open>
  Before line 134 runs the two variables do not exist; the initial state shows them with
  \<open>0\<close>, the value they are created with, and an empty trace.
\<close>

definition start :: "'x \<Rightarrow> ('p, 'x) machine" where
  "start x = \<lparr>vars = \<lparr>train_step = 0, model_id = 0, ext = x\<rparr>, trace = []\<rparr>"

definition train :: "('p, 'x) collab \<Rightarrow> config \<Rightarrow> 'x \<Rightarrow> ('p, 'x) result" where
  "train c cfg x =
     (case compute_init_iteration (init_train_step cfg) (sequence_length cfg)
             (num_episodes_per_iteration cfg) (num_epochs cfg) (per_replica_batch_size cfg)
             (num_replicas_in_sync c) of
        Raises e \<Rightarrow> (Raised e, start x)
      | Blocks \<Rightarrow> (Blocked, start x)
      | Returns init_iteration \<Rightarrow>
          then_do (train_setup c cfg init_iteration (start x))
            (train_loop c [init_iteration..num_iterations cfg - 1]))"

subsection \<open>Reading a trace\<close>

datatype phase = WAIT | TRAIN | PUBLISH | PURGE

fun phase_of :: "'p event \<Rightarrow> phase option" where
  "phase_of WaitForData = Some WAIT"
| "phase_of Run = Some TRAIN"
| "phase_of (Push snap) = Some PUBLISH"
| "phase_of Clear = Some PURGE"
| "phase_of ev = None"

definition phases :: "'p event list \<Rightarrow> phase list" where
  "phases tr = List.map_filter phase_of tr"

fun pushed :: "'p event \<Rightarrow> 'p snapshot option" where
  "pushed (Push snap) = Some snap"
| "pushed ev = None"

definition pushes :: "'p event list \<Rightarrow> 'p snapshot list" where
  "pushes tr = List.map_filter pushed tr"

text \<open>
  A step emits the phases \<open>ks\<close> when every run of it only appends to the trace, the phases
  of the appended events are a prefix of \<open>ks\<close>, and they are all of \<open>ks\<close> when the step
  completes.
\<close>

definition emits :: "phase list \<Rightarrow> (('p, 'x) machine \<Rightarrow> ('p, 'x) result) \<Rightarrow> bool" where
  "emits ks f \<longleftrightarrow>
     (\<forall>s st s'. f s = (st, s') \<longrightarrow>
        (\<exists>evs. trace s' = trace s @ evs \<and> prefix (phases evs) ks
           \<and> (st = Normal \<longrightarrow> phases evs = ks)))"

subsection \<open>The learner as the specification describes it\<close>

text \<open>
  Modelled from the spec: the learner class (\<open>circuit_training.learning.learner\<close>) is not
  among the sources. The specification says of \<open>run()\<close> that each minibatch update
  increments TrainStep by one, that TrainStep has advanced by \<open>num_epochs *
  minibatches_per_epoch\<close> when it returns, and that ModelID is incremented once per completed
  iteration, immediately before the push; \<open>train\<close> itself never assigns \<open>model_id\<close> inside
  the loop, so the increment is the learner's. Of \<open>wait_for_data()\<close> it says that it blocks
  until a batch exists and serves observability only.
\<close>

definition spec_run :: "int \<Rightarrow> 'x world \<Rightarrow> 'x world outcome" where
  "spec_run steps w = Returns (w\<lparr>train_step := train_step w + steps, model_id := model_id w + 1\<rparr>)"

definition spec_learner :: "int \<Rightarrow> ('p, 'x) collab \<Rightarrow> ('p, 'x) collab" where
  "spec_learner steps c =
     c\<lparr>create_learner := Returns, wait_for_data := Returns, run := spec_run steps\<rparr>"

subsection \<open>Concrete runs\<close>

text \<open>
  The default arguments of \<open>train\<close>; \<open>sequence_length\<close> has no default.
\<close>

definition default_config :: "int \<Rightarrow> config" where
  "default_config seq_len =
     \<lparr>sequence_length = seq_len, rl_architecture = ''generalization'',
      per_replica_batch_size = Some 32, num_epochs = 4, num_iterations = 10000,
      num_episodes_per_iteration = 1024, init_train_step = 0\<rparr>"

text \<open>
  Collaborators that return at once and change nothing, with a policy that has no
  variables, and the same collaborators with a summary writer that raises.
\<close>

definition quiet_collab :: "int \<Rightarrow> (unit, unit) collab" where
  "quiet_collab replicas =
     \<lparr>num_replicas_in_sync = replicas,
      create_circuit_ppo_grl_agent = Returns,
      create_circuit_ppo_agent = Returns,
      agent_initialize = Returns,
      policy_saved_model_trigger = Returns,
      collect_policy_variables = (\<lambda>x. ()),
      variable_container = Returns,
      push = (\<lambda>snap. Returns),
      replay_buffer = Returns,
      create_learner = Returns,
      wait_for_data = Returns,
      run = Returns,
      clear = Returns,
      summary_scalar = (\<lambda>name step. Returns),
      summary_flush = Returns\<rparr>"

definition failing_summaries :: "(unit, unit) collab" where
  "failing_summaries =
     (quiet_collab 8)\<lparr>summary_scalar := \<lambda>name step x. Raises (Fault ''summary write failed'')\<rparr>"

section \<open>Facts about the float arithmetic\<close>

subsection \<open>Binary exponents\<close>

lemma ilog2_lower:
  assumes "0 < x"
  shows "2 powi (ilog2 x) \<le> x"
proof (cases "1 \<le> x")
  case True
  then have n: "0 < \<lfloor>x\<rfloor>" by linarith
  have b: "1 \<le> bitlen \<lfloor>x\<rfloor>" using n bitlen_eq_zero_iff [of "\<lfloor>x\<rfloor>"] bitlen_nonneg [of "\<lfloor>x\<rfloor>"] by linarith
  have "(2::int) ^ nat (bitlen \<lfloor>x\<rfloor> - 1) \<le> \<lfloor>x\<rfloor>" using bitlen_bounds [OF n] by simp
  then have "rat_of_int (2 ^ nat (bitlen \<lfloor>x\<rfloor> - 1)) \<le> of_int \<lfloor>x\<rfloor>" by (simp only: of_int_le_iff)
  also have "\<dots> \<le> x" by simp
  finally have "(2::rat) ^ nat (bitlen \<lfloor>x\<rfloor> - 1) \<le> x" by simp
  then show ?thesis using True b by (simp add: ilog2_def power_int_nonneg_exp)
next
  case False
  define y where "y = 1 / x"
  define m where "m = \<lceil>y\<rceil> - 1"
  have y1: "1 < y" using False assms by (simp add: y_def)
  have m0: "0 < m" using y1 unfolding m_def by linarith
  have "m < 2 ^ nat (bitlen m)" using bitlen_bounds [OF m0] by simp
  then have "m + 1 \<le> 2 ^ nat (bitlen m)" by simp
  then have "rat_of_int (m + 1) \<le> of_int (2 ^ nat (bitlen m))" by (simp only: of_int_le_iff)
  moreover have "y \<le> of_int (m + 1)" unfolding m_def by simp
  ultimately have "y \<le> 2 ^ nat (bitlen m)" by simp
  then have "1 / 2 ^ nat (bitlen m) \<le> x" using assms unfolding y_def by (simp add: field_simps)
  moreover have "(2::rat) powi (- bitlen m) = 1 / 2 ^ nat (bitlen m)"
    using bitlen_nonneg [of m] by (simp add: power_int_minus_divide power_int_nonneg_exp)
  ultimately show ?thesis using False by (simp add: ilog2_def y_def m_def)
qed

lemma ilog2_upper:
  assumes "0 < x"
  shows "x < 2 powi (ilog2 x + 1)"
proof (cases "1 \<le> x")
  case True
  then have n: "0 < \<lfloor>x\<rfloor>" by linarith
  have b: "1 \<le> bitlen \<lfloor>x\<rfloor>" using n bitlen_eq_zero_iff [of "\<lfloor>x\<rfloor>"] bitlen_nonneg [of "\<lfloor>x\<rfloor>"] by linarith
  have "\<lfloor>x\<rfloor> < 2 ^ nat (bitlen \<lfloor>x\<rfloor>)" using bitlen_bounds [OF n] by simp
  then have "\<lfloor>x\<rfloor> + 1 \<le> 2 ^ nat (bitlen \<lfloor>x\<rfloor>)" by simp
  then have "rat_of_int (\<lfloor>x\<rfloor> + 1) \<le> of_int (2 ^ nat (bitlen \<lfloor>x\<rfloor>))" by (simp only: of_int_le_iff)
  moreover have "x < of_int (\<lfloor>x\<rfloor> + 1)" by linarith
  ultimately have "x < 2 ^ nat (bitlen \<lfloor>x\<rfloor>)" by simp
  then show ?thesis using True b by (simp add: ilog2_def power_int_nonneg_exp)
next
  case False
  define y where "y = 1 / x"
  define m where "m = \<lceil>y\<rceil> - 1"
  have y1: "1 < y" using False assms by (simp add: y_def)
  have m0: "0 < m" using y1 unfolding m_def by linarith
  have b: "1 \<le> bitlen m" using m0 bitlen_eq_zero_iff [of m] bitlen_nonneg [of m] by linarith
  have "2 ^ nat (bitlen m - 1) \<le> m" using bitlen_bounds [OF m0] by simp
  then have "rat_of_int (2 ^ nat (bitlen m - 1)) \<le> of_int m" by (simp only: of_int_le_iff)
  moreover have "of_int m < y" unfolding m_def by linarith
  ultimately have "rat_of_int (2 ^ nat (bitlen m - 1)) < y" by linarith
  then have "2 ^ nat (bitlen m - 1) < y" by simp
  then have "x < 1 / 2 ^ nat (bitlen m - 1)" using assms unfolding y_def by (simp add: field_simps)
  moreover have "(2::rat) powi (- bitlen m + 1) = 1 / 2 ^ nat (bitlen m - 1)"
  proof -
    have "(2::rat) powi (- bitlen m + 1) = 2 powi (- (bitlen m - 1))" by simp
    also have "\<dots> = 1 / 2 powi (bitlen m - 1)" by (rule power_int_minus_divide)
    also have "\<dots> = 1 / 2 ^ nat (bitlen m - 1)" using b by (simp add: power_int_nonneg_exp)
    finally show ?thesis .
  qed
  ultimately show ?thesis using False by (simp add: ilog2_def y_def m_def)
qed

lemma ilog2_ge:
  assumes "0 < x" "2 powi k \<le> x"
  shows "k \<le> ilog2 x"
proof (rule ccontr)
  assume "\<not> k \<le> ilog2 x"
  then have "ilog2 x + 1 \<le> k" by simp
  then have "(2::rat) powi (ilog2 x + 1) \<le> 2 powi k" by (intro power_int_increasing) simp_all
  with ilog2_upper [OF assms(1)] assms(2) show False by simp
qed

lemma ilog2_less:
  assumes "0 < x" "x < 2 powi k"
  shows "ilog2 x < k"
proof (rule ccontr)
  assume "\<not> ilog2 x < k"
  then have "k \<le> ilog2 x" by simp
  then have "(2::rat) powi k \<le> 2 powi (ilog2 x)" by (intro power_int_increasing) simp_all
  with ilog2_lower [OF assms(1)] assms(2) show False by simp
qed

lemma ilog2_mono:
  assumes "0 < x" "x \<le> y"
  shows "ilog2 x \<le> ilog2 y"
  using assms ilog2_lower [of x] by (intro ilog2_ge) simp_all

subsection \<open>Rounding to the nearest integer\<close>

lemma round_half_even_of_int: "round_half_even (of_int k) = k"
  by (simp add: round_half_even_def)

lemma round_half_even_bounds:
  "\<lfloor>y\<rfloor> \<le> round_half_even y" "round_half_even y \<le> \<lfloor>y\<rfloor> + 1"
  by (simp_all add: round_half_even_def Let_def)

lemma round_half_even_mono:
  assumes "x \<le> y"
  shows "round_half_even x \<le> round_half_even y"
proof (cases "\<lfloor>x\<rfloor> = \<lfloor>y\<rfloor>")
  case True
  with assms show ?thesis by (auto simp add: round_half_even_def Let_def)
next
  case False
  with assms have "\<lfloor>x\<rfloor> + 1 \<le> \<lfloor>y\<rfloor>" using floor_mono [OF assms] by linarith
  with round_half_even_bounds(2) [of x] round_half_even_bounds(1) [of y] show ?thesis by linarith
qed

lemma round_half_even_error: "\<bar>of_int (round_half_even y) - y\<bar> \<le> 1 / 2"
proof -
  have "of_int \<lfloor>y\<rfloor> \<le> y" "y < of_int \<lfloor>y\<rfloor> + 1" by linarith+
  then show ?thesis by (auto simp add: round_half_even_def Let_def abs_le_iff)
qed

lemma round_half_even_minus: "round_half_even (- y) = - round_half_even y"
proof (cases "y \<in> \<int>")
  case True
  then obtain k where "y = of_int k" by (auto elim: Ints_cases)
  then have "- y = of_int (- k)" by simp
  then show ?thesis using \<open>y = of_int k\<close> by (simp only: round_half_even_of_int)
next
  case False
  have "of_int \<lfloor>y\<rfloor> \<noteq> y" using False Ints_of_int [of "\<lfloor>y\<rfloor>", where 'a = rat] by metis
  then have g: "of_int \<lfloor>y\<rfloor> < y" "y < of_int \<lfloor>y\<rfloor> + 1" by linarith+
  have f: "\<lfloor>- y\<rfloor> = - \<lfloor>y\<rfloor> - 1"
    by (rule floor_unique) (use g in simp_all)
  have d: "- y - of_int (- \<lfloor>y\<rfloor> - 1) = 1 - (y - of_int \<lfloor>y\<rfloor>)" by simp
  define t where "t = y - of_int \<lfloor>y\<rfloor>"
  have t: "0 < t" "t < 1" using g by (simp_all add: t_def)
  have "round_half_even (- y) =
     (if 1 - t < 1 / 2 then - \<lfloor>y\<rfloor> - 1 else if 1 / 2 < 1 - t then - \<lfloor>y\<rfloor> else if even (- \<lfloor>y\<rfloor> - 1) then - \<lfloor>y\<rfloor> - 1 else - \<lfloor>y\<rfloor>)"
    unfolding round_half_even_def Let_def f d t_def by simp
  moreover have "round_half_even y =
     (if t < 1 / 2 then \<lfloor>y\<rfloor> else if 1 / 2 < t then \<lfloor>y\<rfloor> + 1 else if even \<lfloor>y\<rfloor> then  \<lfloor>y\<rfloor> else \<lfloor>y\<rfloor> + 1)"
    unfolding round_half_even_def Let_def t_def by simp
  ultimately show ?thesis by auto
qed

subsection \<open>Rounding to the nearest float\<close>

lemma ulp64_pos: "0 < ulp64 x"
  by (simp add: ulp64_def)

lemma ulp64_minus: "ulp64 (- x) = ulp64 x"
  by (simp add: ulp64_def)

lemma binary64_minus: "binary64 (- x) = - binary64 x"
  by (simp add: binary64_def ulp64_minus round_half_even_minus)

lemma binary64_nonneg:
  assumes "0 \<le> x"
  shows "0 \<le> binary64 x"
proof -
  have "0 \<le> x / ulp64 x" using assms ulp64_pos [of x] by simp
  then have "0 \<le> \<lfloor>x / ulp64 x\<rfloor>" by simp
  then have "0 \<le> round_half_even (x / ulp64 x)"
    using round_half_even_bounds(1) [of "x / ulp64 x"] by linarith
  then show ?thesis using ulp64_pos [of x] by (simp add: binary64_def)
qed

lemma pow2_shift: "rat_of_int (2 ^ n) * 2 powi k = 2 powi (int n + k)"
  by (simp add: power_int_add)

lemma pow2_quot: "(2::rat) powi a / 2 powi b = 2 powi (a - b)"
  by (simp add: power_int_diff)

lemma binary64_mono_pos:
  assumes "0 < x" "x \<le> y"
  shows "binary64 x \<le> binary64 y"
proof -
  define ex where "ex = max (ilog2 x) (- 1022)"
  define ey where "ey = max (ilog2 y) (- 1022)"
  have y: "0 < y" using assms by simp
  have ux: "ulp64 x = 2 powi (ex - 52)" using assms by (simp add: ulp64_def ex_def)
  have uy: "ulp64 y = 2 powi (ey - 52)" using y by (simp add: ulp64_def ey_def)
  have bx: "binary64 x = of_int (round_half_even (x / ulp64 x)) * ulp64 x"
    using assms by (simp add: binary64_def)
  have by': "binary64 y = of_int (round_half_even (y / ulp64 y)) * ulp64 y"
    using y by (simp add: binary64_def)
  have le: "ex \<le> ey" using ilog2_mono [OF assms] by (simp add: ex_def ey_def)
  show ?thesis
  proof (cases "ex = ey")
    case True
    then have u: "ulp64 x = ulp64 y" by (simp add: ux uy)
    have "x / ulp64 y \<le> y / ulp64 y" using assms ulp64_pos [of y] by (simp add: divide_right_mono)
    then have "round_half_even (x / ulp64 y) \<le> round_half_even (y / ulp64 y)"
      by (rule round_half_even_mono)
    then have "rat_of_int (round_half_even (x / ulp64 y)) \<le> of_int (round_half_even (y / ulp64 y))"
      by (simp only: of_int_le_iff)
    then show ?thesis unfolding bx by' u using ulp64_pos [of y] by (simp add: mult_right_mono)
  next
    case False
    with le have lt: "ex + 1 \<le> ey" by simp
    have eyl: "ey = ilog2 y" using lt by (simp add: ey_def ex_def max_def split: if_splits)
    have ylow: "2 powi ey \<le> y" using ilog2_lower [OF y] eyl by simp
    have "x < 2 powi (ilog2 x + 1)" by (rule ilog2_upper [OF assms(1)])
    also have "\<dots> \<le> 2 powi (ex + 1)" by (intro power_int_increasing) (simp_all add: ex_def)
    finally have xup: "x < 2 powi (ex + 1)" .
    have "x / ulp64 x \<le> 2 powi (ex + 1) / 2 powi (ex - 52)"
      unfolding ux using xup by (simp add: divide_right_mono)
    also have "\<dots> = 2 powi ((ex + 1) - (ex - 52))" by (rule pow2_quot)
    also have "(ex + 1) - (ex - 52) = 53" by simp
    also have "2 powi 53 = rat_of_int (2 ^ 53)" by simp
    finally have "round_half_even (x / ulp64 x) \<le> round_half_even (rat_of_int (2 ^ 53))"
      by (rule round_half_even_mono)
    then have "round_half_even (x / ulp64 x) \<le> 2 ^ 53" by (simp only: round_half_even_of_int)
    then have "rat_of_int (round_half_even (x / ulp64 x)) \<le> rat_of_int (2 ^ 53)"
      by (simp only: of_int_le_iff)
    then have "binary64 x \<le> rat_of_int (2 ^ 53) * 2 powi (ex - 52)"
      unfolding bx ux by (simp add: mult_right_mono)
    also have "\<dots> = 2 powi (int 53 + (ex - 52))" by (rule pow2_shift)
    also have "int 53 + (ex - 52) = ex + 1" by simp
    finally have b1: "binary64 x \<le> 2 powi (ex + 1)" .
    have "ey - (ey - 52) = 52" by simp
    then have "rat_of_int (2 ^ 52) = 2 powi (ey - (ey - 52))" by simp
    also have "\<dots> = 2 powi ey / 2 powi (ey - 52)" by (rule pow2_quot [symmetric])
    also have "\<dots> \<le> y / ulp64 y" unfolding uy using ylow by (simp add: divide_right_mono)
    finally have "rat_of_int (2 ^ 52) \<le> y / ulp64 y" .
    then have "round_half_even (rat_of_int (2 ^ 52)) \<le> round_half_even (y / ulp64 y)"
      by (rule round_half_even_mono)
    then have "2 ^ 52 \<le> round_half_even (y / ulp64 y)" by (simp only: round_half_even_of_int)
    then have "rat_of_int (2 ^ 52) \<le> rat_of_int (round_half_even (y / ulp64 y))"
      by (simp only: of_int_le_iff)
    then have "rat_of_int (2 ^ 52) * 2 powi (ey - 52) \<le> binary64 y"
      unfolding by' uy by (simp add: mult_right_mono)
    moreover have "rat_of_int (2 ^ 52) * 2 powi (ey - 52) = 2 powi (int 52 + (ey - 52))"
      by (rule pow2_shift)
    moreover have "int 52 + (ey - 52) = ey" by simp
    ultimately have b2: "2 powi ey \<le> binary64 y" by (simp only:)
    have "(2::rat) powi (ex + 1) \<le> 2 powi ey" using lt by (intro power_int_increasing) simp_all
    with b1 b2 show ?thesis by linarith
  qed
qed

lemma pow2_mult: "(2::rat) powi a * 2 powi b = 2 powi (a + b)"
  by (simp add: power_int_add)

lemma binary64_zero: "binary64 0 = 0"
  by (simp add: binary64_def)

lemma binary64_mono:
  assumes "x \<le> y"
  shows "binary64 x \<le> binary64 y"
proof -
  consider "0 < x" | "x \<le> 0" "0 \<le> y" | "y < 0" by linarith
  then show ?thesis
  proof cases
    case 1
    then show ?thesis using assms by (rule binary64_mono_pos)
  next
    case 2
    have "0 \<le> binary64 (- x)" using 2 by (intro binary64_nonneg) simp
    then have "binary64 x \<le> 0" by (simp add: binary64_minus)
    moreover have "0 \<le> binary64 y" using 2 by (intro binary64_nonneg)
    ultimately show ?thesis by simp
  next
    case 3
    then have "binary64 (- y) \<le> binary64 (- x)" using assms by (intro binary64_mono_pos) simp_all
    then show ?thesis by (simp add: binary64_minus)
  qed
qed

lemma binary64_exact:
  assumes "0 < k" "k < 2 ^ 53" "- 1074 \<le> j"
  shows "binary64 (of_int k * 2 powi j) = of_int k * 2 powi j"
proof -
  define x where "x = rat_of_int k * 2 powi j"
  define e where "e = max (ilog2 x) (- 1022)"
  have x: "0 < x" using assms by (simp add: x_def)
  have u: "ulp64 x = 2 powi (e - 52)" using x by (simp add: ulp64_def e_def)
  have "rat_of_int k < rat_of_int (2 ^ 53)" using assms(2) by (simp only: of_int_less_iff)
  then have "x < rat_of_int (2 ^ 53) * 2 powi j" unfolding x_def by (simp add: mult_strict_right_mono)
  also have "\<dots> = 2 powi (int 53 + j)" by (rule pow2_shift)
  finally have "ilog2 x < int 53 + j" by (rule ilog2_less [OF x])
  then have d: "0 \<le> j - (e - 52)" using assms(3) by (simp add: e_def)
  have "x / ulp64 x = rat_of_int k * (2 powi j / 2 powi (e - 52))" unfolding u by (simp add: x_def)
  also have "\<dots> = rat_of_int k * 2 powi (j - (e - 52))" by (simp only: pow2_quot)
  also have "\<dots> = rat_of_int k * 2 ^ nat (j - (e - 52))" using d by (simp only: power_int_nonneg_exp)
  also have "\<dots> = rat_of_int (k * 2 ^ nat (j - (e - 52)))" by simp
  finally have q: "x / ulp64 x = rat_of_int (k * 2 ^ nat (j - (e - 52)))" .
  have "binary64 x = of_int (round_half_even (x / ulp64 x)) * ulp64 x"
    using x by (simp add: binary64_def)
  also have "\<dots> = (x / ulp64 x) * ulp64 x" unfolding q by (simp only: round_half_even_of_int)
  also have "\<dots> = x" using ulp64_pos [of x] by simp
  finally show ?thesis by (simp only: x_def)
qed

lemma binary64_of_int:
  assumes "0 \<le> k" "k < 2 ^ 53"
  shows "binary64 (of_int k) = of_int k"
proof (cases "k = 0")
  case True
  then show ?thesis by (simp add: binary64_def)
next
  case False
  with assms have "0 < k" by simp
  from binary64_exact [OF this assms(2), of 0] show ?thesis by simp
qed

lemma binary64_error:
  assumes "2 powi (- 1022) \<le> x"
  shows "\<bar>binary64 x - x\<bar> \<le> x * 2 powi (- 53)"
proof -
  have x: "0 < x" using assms by (rule less_le_trans [rotated]) simp
  define e where "e = ilog2 x"
  have "- 1022 \<le> e" unfolding e_def using x assms by (rule ilog2_ge)
  then have u: "ulp64 x = 2 powi (e - 52)" using x by (simp add: ulp64_def e_def)
  have b: "binary64 x = of_int (round_half_even (x / ulp64 x)) * ulp64 x"
    using x by (simp add: binary64_def)
  have "binary64 x - x = (of_int (round_half_even (x / ulp64 x)) - x / ulp64 x) * ulp64 x"
    unfolding b using ulp64_pos [of x] by (simp add: algebra_simps)
  then have "\<bar>binary64 x - x\<bar> = \<bar>of_int (round_half_even (x / ulp64 x)) - x / ulp64 x\<bar> * ulp64 x"
    using ulp64_pos [of x] by (simp add: abs_mult)
  also have "\<dots> \<le> (1 / 2) * ulp64 x"
    using round_half_even_error [of "x / ulp64 x"] ulp64_pos [of x] by (intro mult_right_mono) simp_all
  also have "\<dots> = 2 powi (- 1) * 2 powi (e - 52)" by (simp add: u)
  also have "\<dots> = 2 powi (- 1 + (e - 52))" by (rule pow2_mult)
  also have "- 1 + (e - 52) = e + (- 53)" by simp
  also have "(2::rat) powi (e + (- 53)) = 2 powi e * 2 powi (- 53)" by (rule pow2_mult [symmetric])
  also have "\<dots> \<le> x * 2 powi (- 53)"
    using ilog2_lower [OF x] unfolding e_def by (intro mult_right_mono) simp_all
  finally show ?thesis .
qed

subsection \<open>Order and sign through the divisions\<close>

lemma int_of_float_mono:
  assumes "x \<le> y"
  shows "int_of_float x \<le> int_of_float y"
proof -
  consider "0 \<le> x" | "x < 0" "0 \<le> y" | "y < 0" by linarith
  then show ?thesis
  proof cases
    case 1
    then show ?thesis using assms by (simp add: int_of_float_def floor_mono)
  next
    case 2
    then have "\<lceil>x\<rceil> \<le> 0" "0 \<le> \<lfloor>y\<rfloor>" by (simp_all add: ceiling_le_zero)
    then have "\<lceil>x\<rceil> \<le> \<lfloor>y\<rfloor>" by linarith
    moreover have "int_of_float x = \<lceil>x\<rceil>" "int_of_float y = \<lfloor>y\<rfloor>"
      using 2 by (simp_all add: int_of_float_def)
    ultimately show ?thesis by simp
  next
    case 3
    then show ?thesis using assms by (simp add: int_of_float_def ceiling_mono)
  qed
qed

lemma int_of_float_nonneg: "0 \<le> x \<Longrightarrow> 0 \<le> int_of_float x"
  by (simp add: int_of_float_def)

lemma float_of_int_pos:
  assumes "0 < n" "float_of_int n = Returns y"
  shows "0 < y"
proof -
  have y: "y = binary64 (of_int n)"
    using assms(2) by (simp add: float_of_int_def Let_def split: if_splits)
  have "rat_of_int 1 \<le> of_int n" using assms(1) by simp
  then have "binary64 (of_int 1) \<le> binary64 (of_int n)" by (rule binary64_mono)
  moreover have "binary64 (rat_of_int 1) = of_int 1" by (rule binary64_of_int) simp_all
  ultimately show ?thesis unfolding y by simp
qed

lemma float_truediv_mono:
  assumes "0 < n" "x \<le> x'" "float_truediv x n = Returns q" "float_truediv x' n = Returns q'"
  shows "q \<le> q'"
proof -
  obtain y where y: "float_of_int n = Returns y"
    using assms(3) by (cases "float_of_int n") (simp_all add: float_truediv_def)
  have pos: "0 < y" using assms(1) y by (rule float_of_int_pos)
  have "q = binary64 (x / y)" "q' = binary64 (x' / y)"
    using assms(3,4) y pos by (simp_all add: float_truediv_def)
  moreover have "x / y \<le> x' / y" using assms(2) pos by (simp add: divide_right_mono)
  ultimately show ?thesis by (simp add: binary64_mono)
qed

lemma float_truediv_nonneg:
  assumes "0 < n" "0 \<le> x" "float_truediv x n = Returns q"
  shows "0 \<le> q"
proof -
  obtain y where y: "float_of_int n = Returns y"
    using assms(3) by (cases "float_of_int n") (simp_all add: float_truediv_def)
  have pos: "0 < y" using assms(1) y by (rule float_of_int_pos)
  have "q = binary64 (x / y)" using assms(3) y pos by (simp add: float_truediv_def)
  moreover have "0 \<le> x / y" using assms(2) pos by simp
  ultimately show ?thesis by (simp add: binary64_nonneg)
qed

lemma int_truediv_mono:
  assumes "0 < s" "a \<le> b" "int_truediv a s = Returns q" "int_truediv b s = Returns q'"
  shows "q \<le> q'"
proof -
  have "q = binary64 (of_int a / of_int s)" "q' = binary64 (of_int b / of_int s)"
    using assms(1,3,4) by (simp_all add: int_truediv_def Let_def split: if_splits)
  moreover have "rat_of_int a / of_int s \<le> of_int b / of_int s"
    using assms(1,2) by (simp add: divide_right_mono)
  ultimately show ?thesis by (simp add: binary64_mono)
qed

lemma int_truediv_nonneg:
  assumes "0 < s" "0 \<le> a" "int_truediv a s = Returns q"
  shows "0 \<le> q"
proof -
  have "q = binary64 (of_int a / of_int s)"
    using assms(1,3) by (simp add: int_truediv_def Let_def split: if_splits)
  moreover have "0 \<le> rat_of_int a / of_int s" using assms(1,2) by simp
  ultimately show ?thesis by (simp add: binary64_nonneg)
qed

lemma compute_init_iteration_ReturnsE:
  assumes "compute_init_iteration a s e p (Some k) r = Returns v"
  obtains q1 q2 q3 where "int_truediv (a * k * r) s = Returns q1"
    "float_truediv q1 e = Returns q2" "float_truediv q2 p = Returns q3" "v = int_of_float q3"
proof -
  from assms obtain q1 where q1: "int_truediv (a * k * r) s = Returns q1"
    by (cases "int_truediv (a * k * r) s") (simp_all add: compute_init_iteration_def)
  from assms q1 obtain q2 where q2: "float_truediv q1 e = Returns q2"
    by (cases "float_truediv q1 e") (simp_all add: compute_init_iteration_def)
  from assms q1 q2 obtain q3 where q3: "float_truediv q2 p = Returns q3"
    by (cases "float_truediv q2 p") (simp_all add: compute_init_iteration_def)
  from assms q1 q2 q3 have "v = int_of_float q3" by (simp add: compute_init_iteration_def)
  with q1 q2 q3 show ?thesis by (rule that)
qed

subsection \<open>Three roundings stay below the next integer\<close>

lemma binary64_upper:
  assumes "2 powi (- 1022) \<le> x"
  shows "binary64 x \<le> x * (1 + 2 powi (- 53))"
proof -
  have "binary64 x - x \<le> \<bar>binary64 x - x\<bar>" by simp
  also have "\<dots> \<le> x * 2 powi (- 53)" using assms by (rule binary64_error)
  finally show ?thesis by (simp add: algebra_simps)
qed

lemma binary64_pow2_le:
  assumes "- 1074 \<le> j" "2 powi j \<le> x"
  shows "2 powi j \<le> binary64 x"
proof -
  have "binary64 (of_int 1 * 2 powi j) = of_int 1 * 2 powi j"
    using assms(1) by (intro binary64_exact) simp_all
  then have "binary64 (2 powi j) = 2 powi j" by simp
  moreover have "binary64 (2 powi j) \<le> binary64 x" using assms(2) by (rule binary64_mono)
  ultimately show ?thesis by simp
qed

lemma binary64_of_int_le:
  assumes "0 \<le> k" "k < 2 ^ 53" "of_int k \<le> x"
  shows "of_int k \<le> binary64 x"
proof -
  have "binary64 (of_int k) \<le> binary64 x" using assms(3) by (rule binary64_mono)
  then show ?thesis using binary64_of_int [OF assms(1,2)] by simp
qed

lemma three_roundings: "(1 + 2 powi (- 53)) * (1 + 2 powi (- 53)) * (1 + 2 powi (- 53)) \<le> (1 + 2 powi (- 51) :: rat)"
  by (simp add: power_int_minus_divide)

lemma div_chain_lower:
  fixes n s e p :: int
  assumes "0 \<le> n" "n < 2 ^ 51" "0 < s" "0 < e" "0 < p"
  shows "of_int (n div (s * e * p))
    \<le> binary64 (binary64 (binary64 (of_int n / of_int s) / of_int e) / of_int p)"
proof -
  define m where "m = n div (s * e * p)"
  have D: "0 < s * e * p" using assms by simp
  have m0: "0 \<le> m" unfolding m_def using assms(1) D by (simp add: pos_imp_zdiv_nonneg_iff)
  have "n div (s * e * p) * (s * e * p) + n mod (s * e * p) = n" by (rule div_mult_mod_eq)
  moreover have "0 \<le> n mod (s * e * p)" using D by (rule pos_mod_sign)
  ultimately have "m * (s * e * p) \<le> n" unfolding m_def by linarith
  then have mn: "(m * e * p) * s \<le> n" by (simp add: mult_ac)
  have "m * 1 \<le> m * p" using m0 assms(5) by (intro mult_left_mono) simp_all
  then have mp: "m \<le> m * p" by simp
  have "(m * p) * 1 \<le> (m * p) * e" using m0 assms(4,5) by (intro mult_left_mono) simp_all
  then have mep: "m * p \<le> m * e * p" by (simp add: mult_ac)
  have "(m * e * p) * 1 \<le> (m * e * p) * s" using m0 assms(3,4,5) by (intro mult_left_mono) simp_all
  then have "m * e * p \<le> n" using mn by simp
  then have b3: "m * e * p < 2 ^ 53" and b2: "m * p < 2 ^ 53" and b1: "m < 2 ^ 53"
    using assms(2) mep mp by simp_all
  have "rat_of_int ((m * e * p) * s) \<le> of_int n" using mn by (simp only: of_int_le_iff)
  then have "rat_of_int (m * e * p) \<le> of_int n / of_int s"
    using assms(3) by (simp add: pos_le_divide_eq)
  then have q1: "rat_of_int (m * e * p) \<le> binary64 (of_int n / of_int s)"
    using m0 assms(4,5) b3 by (intro binary64_of_int_le) simp_all
  have "rat_of_int (m * p) * of_int e \<le> binary64 (of_int n / of_int s)"
    using q1 by (simp add: mult_ac)
  then have "rat_of_int (m * p) \<le> binary64 (of_int n / of_int s) / of_int e"
    using assms(4) by (simp add: pos_le_divide_eq)
  then have q2: "rat_of_int (m * p) \<le> binary64 (binary64 (of_int n / of_int s) / of_int e)"
    using m0 assms(5) b2 by (intro binary64_of_int_le) simp_all
  have "rat_of_int m * of_int p \<le> binary64 (binary64 (of_int n / of_int s) / of_int e)"
    using q2 by simp
  then have "rat_of_int m \<le> binary64 (binary64 (of_int n / of_int s) / of_int e) / of_int p"
    using assms(5) by (simp add: pos_le_divide_eq)
  then show ?thesis unfolding m_def [symmetric] using m0 b1 by (intro binary64_of_int_le) simp_all
qed

lemma pow2_51: "(2::rat) powi (- 51) * 2 ^ 51 = 1"
  by (simp add: power_int_minus_divide)

lemma pow2_le_quot:
  fixes d :: int and x :: rat
  assumes "0 < d" "d \<le> 2 ^ 51" "2 powi j \<le> x"
  shows "2 powi (j - 51) \<le> x / of_int d"
proof -
  have "rat_of_int d \<le> rat_of_int (2 ^ 51)" using assms(2) by (simp only: of_int_le_iff)
  then have d: "rat_of_int d \<le> 2 ^ 51" by simp
  have "(2::rat) powi (j - 51) * of_int d \<le> 2 powi (j - 51) * 2 ^ 51"
    using d by (intro mult_left_mono) simp_all
  also have "\<dots> = 2 powi (j - 51) * 2 powi 51" by simp
  also have "\<dots> = 2 powi (j - 51 + 51)" by (rule pow2_mult)
  also have "j - 51 + 51 = j" by simp
  finally have "(2::rat) powi (j - 51) * of_int d \<le> x" using assms(3) by simp
  then show ?thesis using assms(1) by (simp add: pos_le_divide_eq)
qed

lemma int_prod_ge_1:
  fixes a b :: int
  assumes "0 < a" "0 < b"
  shows "1 \<le> a * b"
proof -
  have "0 < a * b" using assms by (rule mult_pos_pos)
  then show ?thesis by simp
qed

lemma div_chain_upper:
  fixes n s e p :: int
  assumes "0 \<le> n" "n < 2 ^ 51" "0 < s" "0 < e" "0 < p" "s * e * p \<le> 2 ^ 51"
  shows "binary64 (binary64 (binary64 (of_int n / of_int s) / of_int e) / of_int p)
    < of_int (n div (s * e * p)) + 1"
proof (cases "n = 0")
  case True
  then show ?thesis by (simp add: binary64_zero)
next
  case False
  with assms(1) have n1: "1 \<le> n" by simp
  define c :: rat where "c = 1 + 2 powi (- 53)"
  define x1 where "x1 = rat_of_int n / of_int s"
  define q1 where "q1 = binary64 x1"
  define q2 where "q2 = binary64 (q1 / of_int e)"
  define q3 where "q3 = binary64 (q2 / of_int p)"
  define m where "m = n div (s * e * p)"
  have c0: "0 \<le> c" by (simp add: c_def)
  have D: "0 < s * e * p" using assms by simp
  have "s * 1 \<le> s * (e * p)"
    using assms(3) int_prod_ge_1 [OF assms(4,5)] by (intro mult_left_mono) simp_all
  then have s51: "s \<le> 2 ^ 51" using assms(6) by (simp add: mult_ac)
  have "e * 1 \<le> e * (s * p)"
    using assms(4) int_prod_ge_1 [OF assms(3,5)] by (intro mult_left_mono) simp_all
  then have e51: "e \<le> 2 ^ 51" using assms(6) by (simp add: mult_ac)
  have "p * 1 \<le> p * (s * e)"
    using assms(5) int_prod_ge_1 [OF assms(3,4)] by (intro mult_left_mono) simp_all
  then have p51: "p \<le> 2 ^ 51" using assms(6) by (simp add: mult_ac)
  have n51: "(2::rat) powi (- 1022) \<le> 2 powi (- 51)"
    and n102: "(2::rat) powi (- 1022) \<le> 2 powi (- 102)"
    and n153: "(2::rat) powi (- 1022) \<le> 2 powi (- 153)"
    by (intro power_int_increasing; simp)+
  have "(2::rat) powi 0 \<le> of_int n" using n1 by simp
  then have "2 powi (0 - 51) \<le> x1" unfolding x1_def using assms(3) s51 by (intro pow2_le_quot)
  then have x1: "2 powi (- 51) \<le> x1" by simp
  have "2 powi (- 1022) \<le> x1" using n51 x1 by (rule order_trans)
  then have q1u: "q1 \<le> x1 * c" unfolding q1_def c_def by (rule binary64_upper)
  have q1l: "2 powi (- 51) \<le> q1" unfolding q1_def using _ x1 by (rule binary64_pow2_le) simp
  have "2 powi (- 51 - 51) \<le> q1 / of_int e" using assms(4) e51 q1l by (rule pow2_le_quot)
  then have x2: "2 powi (- 102) \<le> q1 / of_int e" by simp
  have "2 powi (- 1022) \<le> q1 / of_int e" using n102 x2 by (rule order_trans)
  then have q2u: "q2 \<le> q1 / of_int e * c" unfolding q2_def c_def by (rule binary64_upper)
  have q2l: "2 powi (- 102) \<le> q2" unfolding q2_def using _ x2 by (rule binary64_pow2_le) simp
  have "2 powi (- 102 - 51) \<le> q2 / of_int p" using assms(5) p51 q2l by (rule pow2_le_quot)
  then have x3: "2 powi (- 153) \<le> q2 / of_int p" by simp
  have "2 powi (- 1022) \<le> q2 / of_int p" using n153 x3 by (rule order_trans)
  then have q3u: "q3 \<le> q2 / of_int p * c" unfolding q3_def c_def by (rule binary64_upper)
  have "q2 / of_int p * c \<le> (q1 / of_int e * c) / of_int p * c"
    using q2u c0 assms(5) by (intro mult_right_mono divide_right_mono) simp_all
  also have "(q1 / of_int e * c) / of_int p * c \<le> ((x1 * c) / of_int e * c) / of_int p * c"
    using q1u c0 assms(4,5) by (intro mult_right_mono divide_right_mono) simp_all
  also have "\<dots> = of_int n * (c * c * c) / of_int (s * e * p)" by (simp add: x1_def)
  finally have A: "q3 \<le> of_int n * (c * c * c) / of_int (s * e * p)" using q3u by simp
  have B: "of_int n * (c * c * c) \<le> rat_of_int n * (1 + 2 powi (- 51))"
    using three_roundings assms(1) unfolding c_def by (intro mult_left_mono) simp_all
  have C: "rat_of_int n * (1 + 2 powi (- 51)) < of_int n + 1"
  proof -
    have "rat_of_int n < rat_of_int (2 ^ 51)" using assms(2) by (simp only: of_int_less_iff)
    then have "rat_of_int n * 2 powi (- 51) < 2 ^ 51 * 2 powi (- 51)"
      by (intro mult_strict_right_mono) simp_all
    then show ?thesis using pow2_51 by (simp add: algebra_simps)
  qed
  have E: "rat_of_int n + 1 \<le> of_int ((m + 1) * (s * e * p))"
  proof -
    have "n div (s * e * p) * (s * e * p) + n mod (s * e * p) = n" by (rule div_mult_mod_eq)
    moreover have "n mod (s * e * p) < s * e * p" using D by (rule pos_mod_bound)
    ultimately have "n + 1 \<le> (m + 1) * (s * e * p)" unfolding m_def by (simp add: algebra_simps)
    then have "rat_of_int (n + 1) \<le> of_int ((m + 1) * (s * e * p))" by (simp only: of_int_le_iff)
    then show ?thesis by simp
  qed
  have N: "of_int n * (c * c * c) < rat_of_int ((m + 1) * (s * e * p))" using B C E by linarith
  have Dr: "0 < rat_of_int (s * e * p)" using D by (simp only: of_int_0_less_iff)
  have "of_int n * (c * c * c) / of_int (s * e * p)
      < rat_of_int ((m + 1) * (s * e * p)) / of_int (s * e * p)"
    using N Dr by (rule divide_strict_right_mono)
  also have "\<dots> = rat_of_int (m + 1) * of_int (s * e * p) / of_int (s * e * p)"
    by (simp only: of_int_mult)
  also have "\<dots> = rat_of_int (m + 1)"
  proof -
    have "rat_of_int (s * e * p) \<noteq> 0" using Dr by (rule less_imp_neq [THEN not_sym])
    then show ?thesis by (rule nonzero_mult_div_cancel_right)
  qed
  finally have "q3 < rat_of_int (m + 1)" using A by linarith
  then have "q3 < of_int m + 1" by simp
  then show ?thesis unfolding q3_def q2_def q1_def x1_def m_def .
qed

subsection \<open>The result in the range where floats are exact enough\<close>

lemma binary64_abs_le:
  assumes "0 \<le> k" "k < 2 ^ 53" "\<bar>x\<bar> \<le> of_int k"
  shows "\<bar>binary64 x\<bar> \<le> of_int k"
proof -
  have k: "binary64 (of_int k) = of_int k" using assms(1,2) by (rule binary64_of_int)
  have "binary64 x \<le> binary64 (of_int k)" using assms(3) by (intro binary64_mono) simp
  moreover have "binary64 (- of_int k) \<le> binary64 x" using assms(3) by (intro binary64_mono) simp
  ultimately show ?thesis unfolding binary64_minus k by (simp add: abs_le_iff)
qed

lemma finite64_small:
  assumes "\<bar>x\<bar> \<le> rat_of_int (2 ^ 51)"
  shows "finite64 x"
proof -
  have "(2::rat) ^ 51 < 2 ^ 1024" by (intro power_strict_increasing) simp_all
  with assms show ?thesis by (simp add: finite64_def)
qed

lemma float_of_int_small:
  assumes "0 < d" "d \<le> 2 ^ 51"
  shows "float_of_int d = Returns (of_int d)"
proof -
  have "binary64 (of_int d) = of_int d" using assms by (intro binary64_of_int) simp_all
  moreover have "\<bar>d\<bar> \<le> 2 ^ 51" using assms by simp
  then have "\<bar>rat_of_int d\<bar> \<le> rat_of_int (2 ^ 51)"
    by (simp only: of_int_abs [symmetric] of_int_le_iff)
  ultimately show ?thesis by (simp add: float_of_int_def finite64_small)
qed

lemma float_truediv_small:
  assumes "0 < d" "d \<le> 2 ^ 51"
  shows "float_truediv x d = Returns (binary64 (x / of_int d))"
  using assms by (simp add: float_truediv_def float_of_int_small)

lemma int_truediv_small:
  assumes "\<bar>n\<bar> \<le> 2 ^ 51" "0 < s"
  shows "int_truediv n s = Returns (binary64 (of_int n / of_int s))"
proof -
  have "rat_of_int 1 \<le> of_int s" using assms(2) by simp
  then have "\<bar>rat_of_int n\<bar> / of_int s \<le> \<bar>rat_of_int n\<bar> / 1"
    by (intro divide_left_mono) simp_all
  moreover have "\<bar>rat_of_int n\<bar> \<le> rat_of_int (2 ^ 51)"
    using assms(1) by (simp only: of_int_abs [symmetric] of_int_le_iff)
  ultimately have "\<bar>rat_of_int n / of_int s\<bar> \<le> rat_of_int (2 ^ 51)" using assms(2) by simp
  then have "\<bar>binary64 (rat_of_int n / of_int s)\<bar> \<le> rat_of_int (2 ^ 51)"
    by (intro binary64_abs_le) simp_all
  then have "finite64 (binary64 (rat_of_int n / of_int s))" by (rule finite64_small)
  then show ?thesis using assms(2) by (simp add: int_truediv_def)
qed

lemma int_of_float_minus: "int_of_float (- x) = - int_of_float x"
  by (cases "x = 0") (auto simp add: int_of_float_def ceiling_def)

lemma int_of_float_between:
  assumes "0 \<le> m" "of_int m \<le> x" "x < of_int m + 1"
  shows "int_of_float x = m"
proof -
  have "0 \<le> x" using assms(1,2) by (meson of_int_0_le_iff order_trans)
  moreover have "\<lfloor>x\<rfloor> = m" using assms(2,3) by (rule floor_unique)
  ultimately show ?thesis by (simp add: int_of_float_def)
qed

lemma compute_init_iteration_chain:
  assumes "\<bar>a * k * r\<bar> \<le> 2 ^ 51" "0 < s" "0 < e" "0 < p" "s * e * p \<le> 2 ^ 51"
  shows "compute_init_iteration a s e p (Some k) r =
    Returns (int_of_float (binary64 (binary64 (binary64 (of_int (a * k * r) / of_int s) / of_int e) / of_int p)))"
proof -
  have "e * 1 \<le> e * (s * p)"
    using assms(3) int_prod_ge_1 [OF assms(2,4)] by (intro mult_left_mono) simp_all
  then have e51: "e \<le> 2 ^ 51" using assms(5) by (simp add: mult_ac)
  have "p * 1 \<le> p * (s * e)"
    using assms(4) int_prod_ge_1 [OF assms(2,3)] by (intro mult_left_mono) simp_all
  then have p51: "p \<le> 2 ^ 51" using assms(5) by (simp add: mult_ac)
  show ?thesis
    by (simp add: compute_init_iteration_def int_truediv_small [OF assms(1,2)]
        float_truediv_small [OF assms(3) e51] float_truediv_small [OF assms(4) p51])
qed

lemma compute_init_iteration_small:
  assumes "\<bar>a * k * r\<bar> < 2 ^ 51" "0 < s" "0 < e" "0 < p" "s * e * p \<le> 2 ^ 51"
  shows "compute_init_iteration a s e p (Some k) r =
    Returns (if 0 \<le> a * k * r then (a * k * r) div (s * e * p)
             else - ((- (a * k * r)) div (s * e * p)))"
proof -
  define n where "n = a * k * r"
  define D where "D = s * e * p"
  have le: "\<bar>a * k * r\<bar> \<le> 2 ^ 51" using assms(1) by simp
  note chain = compute_init_iteration_chain [OF le assms(2-5)]
  show ?thesis
  proof (cases "0 \<le> n")
    case True
    then have n: "0 \<le> n" "n < 2 ^ 51" using assms(1) by (simp_all add: n_def)
    have "0 \<le> n div D" using n(1) assms(2-4) by (simp add: D_def pos_imp_zdiv_nonneg_iff)
    then have "int_of_float (binary64 (binary64 (binary64 (of_int n / of_int s) / of_int e) / of_int p))
        = n div D"
      unfolding D_def
      using div_chain_lower [OF n assms(2-4)] div_chain_upper [OF n assms(2-5)]
      by (rule int_of_float_between)
    then show ?thesis using True chain by (simp add: n_def D_def)
  next
    case False
    then have n: "0 \<le> - n" "- n < 2 ^ 51" using assms(1) by (simp_all add: n_def)
    have "0 \<le> (- n) div D" using n(1) assms(2-4) by (simp add: D_def pos_imp_zdiv_nonneg_iff)
    then have "int_of_float (binary64 (binary64 (binary64 (of_int (- n) / of_int s) / of_int e) / of_int p))
        = (- n) div D"
      unfolding D_def
      using div_chain_lower [OF n assms(2-4)] div_chain_upper [OF n assms(2-5)]
      by (rule int_of_float_between)
    moreover have "binary64 (binary64 (binary64 (of_int (- n) / of_int s) / of_int e) / of_int p)
        = - binary64 (binary64 (binary64 (of_int n / of_int s) / of_int e) / of_int p)"
      by (simp add: binary64_minus)
    ultimately have "int_of_float (binary64 (binary64 (binary64 (of_int n / of_int s) / of_int e) / of_int p))
        = - ((- n) div D)"
      by (simp add: int_of_float_minus)
    then show ?thesis using False chain by (simp add: n_def D_def)
  qed
qed

subsection \<open>The formula of the specification\<close>

lemma spec_init_iteration_div:
  "spec_init_iteration a s e p k r = (a * k * r) div (s * e * p)"
proof -
  have "rat_of_int (a * k * r) / of_int s / of_int e / of_int p
      = rat_of_int (a * k * r) / rat_of_int (s * e * p)"
    by simp
  then show ?thesis
    unfolding spec_init_iteration_def by (simp only: floor_divide_of_int_eq)
qed

lemma compute_init_iteration_trunc:
  assumes "\<bar>a * k * r\<bar> < 2 ^ 51" "0 < s" "0 < e" "0 < p" "s * e * p \<le> 2 ^ 51"
  shows "compute_init_iteration a s e p (Some k) r =
    Returns (if 0 \<le> a * k * r then spec_init_iteration a s e p k r
             else - spec_init_iteration (- a) s e p k r)"
  using compute_init_iteration_small [OF assms] by (simp add: spec_init_iteration_div)

subsection \<open>Results that are returned\<close>

lemma compute_init_iteration_mono_returns:
  assumes "a \<le> b" "0 < s" "0 < e" "0 < p" "0 \<le> k * r"
    and "compute_init_iteration a s e p (Some k) r = Returns va"
    and "compute_init_iteration b s e p (Some k) r = Returns vb"
  shows "va \<le> vb"
proof -
  from assms(6) obtain q1 q2 q3 where a: "int_truediv (a * k * r) s = Returns q1"
    "float_truediv q1 e = Returns q2" "float_truediv q2 p = Returns q3" "va = int_of_float q3"
    by (rule compute_init_iteration_ReturnsE)
  from assms(7) obtain q1' q2' q3' where b: "int_truediv (b * k * r) s = Returns q1'"
    "float_truediv q1' e = Returns q2'" "float_truediv q2' p = Returns q3'" "vb = int_of_float q3'"
    by (rule compute_init_iteration_ReturnsE)
  have "a * (k * r) \<le> b * (k * r)" using assms(1,5) by (rule mult_right_mono)
  then have "a * k * r \<le> b * k * r" by (simp only: mult.assoc)
  then have "q1 \<le> q1'" using a(1) b(1) by (rule int_truediv_mono [OF assms(2)])
  then have "q2 \<le> q2'" using a(2) b(2) by (rule float_truediv_mono [OF assms(3)])
  then have "q3 \<le> q3'" using a(3) b(3) by (rule float_truediv_mono [OF assms(4)])
  then show ?thesis unfolding a(4) b(4) by (rule int_of_float_mono)
qed

lemma compute_init_iteration_nonneg_returns:
  assumes "0 < s" "0 < e" "0 < p" "0 \<le> a * k * r"
    and "compute_init_iteration a s e p (Some k) r = Returns v"
  shows "0 \<le> v"
proof -
  from assms(5) obtain q1 q2 q3 where a: "int_truediv (a * k * r) s = Returns q1"
    "float_truediv q1 e = Returns q2" "float_truediv q2 p = Returns q3" "v = int_of_float q3"
    by (rule compute_init_iteration_ReturnsE)
  have "0 \<le> q1" using assms(1,4) a(1) by (rule int_truediv_nonneg)
  then have "0 \<le> q2" using a(2) by (rule float_truediv_nonneg [OF assms(2)])
  then have "0 \<le> q3" using a(3) by (rule float_truediv_nonneg [OF assms(3)])
  then show ?thesis unfolding a(4) by (rule int_of_float_nonneg)
qed

lemma int_truediv_pos_cases:
  assumes "0 < s"
  shows "(\<exists>q. int_truediv n s = Returns q) \<or> int_truediv n s = Raises OverflowError"
  using assms by (simp add: int_truediv_def Let_def)

lemma float_truediv_pos_cases:
  assumes "0 < n"
  shows "(\<exists>q. float_truediv x n = Returns q) \<or> float_truediv x n = Raises OverflowError"
proof (cases "finite64 (binary64 (of_int n))")
  case True
  then have y: "float_of_int n = Returns (binary64 (of_int n))" by (simp add: float_of_int_def)
  from float_of_int_pos [OF assms y] have "binary64 (of_int n) \<noteq> 0" by simp
  then show ?thesis using y by (simp add: float_truediv_def)
next
  case False
  then show ?thesis by (simp add: float_truediv_def float_of_int_def)
qed

lemma compute_init_iteration_pos_cases:
  assumes "0 < s" "0 < e" "0 < p"
  shows "(\<exists>v. compute_init_iteration a s e p (Some k) r = Returns v)
    \<or> compute_init_iteration a s e p (Some k) r = Raises OverflowError"
proof -
  from int_truediv_pos_cases [OF assms(1), of "a * k * r"]
  consider q1 where "int_truediv (a * k * r) s = Returns q1"
    | "int_truediv (a * k * r) s = Raises OverflowError"
    by blast
  then show ?thesis
  proof cases
    case (1 q1)
    from float_truediv_pos_cases [OF assms(2), of q1]
    consider q2 where "float_truediv q1 e = Returns q2"
      | "float_truediv q1 e = Raises OverflowError"
      by blast
    then show ?thesis
    proof cases
      case (1 q2)
      from float_truediv_pos_cases [OF assms(3), of q2]
      show ?thesis
        using \<open>int_truediv (a * k * r) s = Returns q1\<close> 1
        by (auto simp add: compute_init_iteration_def)
    next
      case 2
      then show ?thesis using \<open>int_truediv (a * k * r) s = Returns q1\<close>
        by (simp add: compute_init_iteration_def)
    qed
  next
    case 2
    then show ?thesis by (simp add: compute_init_iteration_def)
  qed
qed

section \<open>Claims about the iteration scheduler\<close>

text \<open>
  In the statements below \<open>a\<close> is \<open>init_train_step\<close>, \<open>s\<close> is \<open>sequence_length\<close>, \<open>e\<close> is
  \<open>num_episodes_per_iteration\<close>, \<open>p\<close> is \<open>num_epochs\<close>, \<open>k\<close> is \<open>per_replica_batch_size\<close>
  and \<open>r\<close> is \<open>num_replicas_in_sync\<close>, in the argument order of the source.
\<close>

text \<open>
  Claim C3, as stated: \<open>compute_init_iteration\<close> returns the floor of
  \<open>init_train_step * per_replica_batch_size * num_replicas_in_sync / sequence_length /
  num_episodes_per_iteration / num_epochs\<close>. The code converts with \<open>int()\<close>, which
  truncates toward zero: at \<open>init_train_step = -1\<close>, \<open>sequence_length = 2\<close> and every other
  argument \<open>1\<close> it returns \<open>0\<close>, and the floor of \<open>-1/2\<close> is \<open>-1\<close>.
\<close>

theorem compute_init_iteration_floor_counterexample:
  "compute_init_iteration (- 1) 2 1 1 (Some 1) 1 = Returns 0
   \<and> spec_init_iteration (- 1) 2 1 1 1 1 = - 1"
proof
  show "compute_init_iteration (- 1) 2 1 1 (Some 1) 1 = Returns 0"
    using compute_init_iteration_small [of "- 1" 1 1 2 1 1] by simp
  show "spec_init_iteration (- 1) 2 1 1 1 1 = - 1"
    by (simp add: spec_init_iteration_div)
qed

text \<open>
  Claim C3, amended: \<open>compute_init_iteration\<close> returns the quotient truncated toward zero.
  When the three divisors are positive with a product of at most \<open>2 ^ 51\<close> and the product
  \<open>init_train_step * per_replica_batch_size * num_replicas_in_sync\<close> is below \<open>2 ^ 51\<close> in
  magnitude, the three float divisions lose nothing that the truncation keeps: the result
  is the floor of the exact quotient for a non-negative product, and minus the floor of the
  negated quotient for a negative one. In particular, with \<open>sequence_length = 100\<close>,
  \<open>num_episodes_per_iteration = 1024\<close>, \<open>num_epochs = 4\<close>, \<open>per_replica_batch_size = 32\<close>
  and \<open>num_replicas_in_sync = 8\<close> it returns \<open>1\<close> for \<open>init_train_step = 1600\<close> and \<open>0\<close> for
  \<open>init_train_step = 0\<close>.
\<close>

theorem compute_init_iteration_truncates:
  assumes "\<bar>a * k * r\<bar> < 2 ^ 51"
    and "0 < s" "0 < e" "0 < p"
    and "s * e * p \<le> 2 ^ 51"
  shows "compute_init_iteration a s e p (Some k) r =
         Returns (if 0 \<le> a * k * r then spec_init_iteration a s e p k r
                  else - spec_init_iteration (- a) s e p k r)"
  using assms by (rule compute_init_iteration_trunc)

theorem compute_init_iteration_truncates_witness:
  "compute_init_iteration 1600 100 1024 4 (Some 32) 8 = Returns 1
   \<and> compute_init_iteration 0 100 1024 4 (Some 32) 8 = Returns 0"
  using compute_init_iteration_truncates [of 1600 32 8 100 1024 4]
    compute_init_iteration_truncates [of 0 32 8 100 1024 4]
  by (simp add: spec_init_iteration_div)

text \<open>
  Claim C5, as stated: with positive divisors, \<open>compute_init_iteration\<close> is non-decreasing in
  \<open>init_train_step\<close>. Nothing keeps \<open>per_replica_batch_size\<close> non-negative: with
  \<open>per_replica_batch_size = -1\<close> and every other argument \<open>1\<close>, step \<open>0\<close> gives \<open>0\<close> and
  step \<open>1\<close> gives \<open>-1\<close>.
\<close>

theorem compute_init_iteration_mono_counterexample:
  "compute_init_iteration 0 1 1 1 (Some (- 1)) 1 = Returns 0
   \<and> compute_init_iteration 1 1 1 1 (Some (- 1)) 1 = Returns (- 1)"
  using compute_init_iteration_small [of 0 "- 1" 1 1 1 1]
    compute_init_iteration_small [of 1 "- 1" 1 1 1 1]
  by simp

text \<open>
  Claim C5, amended: with positive divisors and \<open>0 \<le> k * r\<close>, whenever \<open>a \<le> b\<close> the call
  at \<open>a\<close> and the call at \<open>b\<close> both return and the result for \<open>a\<close> is at most the result for
  \<open>b\<close>, unless one of them raises \<open>OverflowError\<close> because an operand is beyond the range of
  a float.
\<close>

theorem compute_init_iteration_mono:
  assumes "a \<le> b" "0 < s" "0 < e" "0 < p" "0 \<le> k * r"
  shows "(\<exists>va vb. compute_init_iteration a s e p (Some k) r = Returns va
            \<and> compute_init_iteration b s e p (Some k) r = Returns vb \<and> va \<le> vb)
    \<or> compute_init_iteration a s e p (Some k) r = Raises OverflowError
    \<or> compute_init_iteration b s e p (Some k) r = Raises OverflowError"
  using compute_init_iteration_pos_cases [OF assms(2-4), of a k r]
    compute_init_iteration_pos_cases [OF assms(2-4), of b k r]
    compute_init_iteration_mono_returns [OF assms]
  by blast

theorem compute_init_iteration_mono_witness:
  "compute_init_iteration 0 100 1024 4 (Some 32) 8 = Returns 0
   \<and> compute_init_iteration 1600 100 1024 4 (Some 32) 8 = Returns 1
   \<and> (0::int) \<le> 1"
proof -
  have a: "compute_init_iteration 0 100 1024 4 (Some 32) 8 = Returns 0"
    using compute_init_iteration_small [of 0 32 8 100 1024 4] by simp
  have b: "compute_init_iteration 1600 100 1024 4 (Some 32) 8 = Returns 1"
    using compute_init_iteration_small [of 1600 32 8 100 1024 4] by simp
  show ?thesis
    using compute_init_iteration_mono [of 0 1600 100 1024 4 32 8] a b by simp
qed

text \<open>
  Claim C6, as stated: with positive divisors the result is non-negative for every value of
  the remaining arguments. At \<open>init_train_step = -100\<close> and every other argument \<open>1\<close> the
  result is \<open>-100\<close>.
\<close>

theorem compute_init_iteration_nonneg_counterexample:
  "compute_init_iteration (- 100) 1 1 1 (Some 1) 1 = Returns (- 100)"
  using compute_init_iteration_small [of "- 100" 1 1 1 1 1] by simp

text \<open>
  Claim C6, amended: with positive divisors and a non-negative product \<open>a * k * r\<close>, the
  call returns a non-negative result, unless it raises \<open>OverflowError\<close> because an operand
  is beyond the range of a float.
\<close>

theorem compute_init_iteration_nonneg:
  assumes "0 < s" "0 < e" "0 < p" "0 \<le> a * k * r"
  shows "(\<exists>v. compute_init_iteration a s e p (Some k) r = Returns v \<and> 0 \<le> v)
    \<or> compute_init_iteration a s e p (Some k) r = Raises OverflowError"
  using compute_init_iteration_pos_cases [OF assms(1-3), of a k r]
    compute_init_iteration_nonneg_returns [OF assms]
  by blast

theorem compute_init_iteration_nonneg_witness:
  "compute_init_iteration 1600 100 1024 4 (Some 32) 8 = Returns 1 \<and> (0::int) \<le> 1"
proof -
  have b: "compute_init_iteration 1600 100 1024 4 (Some 32) 8 = Returns 1"
    using compute_init_iteration_small [of 1600 32 8 100 1024 4] by simp
  show ?thesis
    using compute_init_iteration_nonneg [of 100 1024 4 1600 32 8] b by simp
qed

text \<open>
  Claim C10. For every \<open>init_train_step\<close> (and every value of the other arguments), calling
  \<open>compute_init_iteration\<close> with \<open>per_replica_batch_size = None\<close> raises a type error
  instead of returning an iteration index.
\<close>

theorem compute_init_iteration_None:
  "compute_init_iteration a s e p None r = Raises TypeError"
  by (simp add: compute_init_iteration_def)

section \<open>Facts about the training driver\<close>

subsection \<open>Sequencing\<close>

lemma then_do_simps [simp]:
  "then_do (Normal, s) f = f s"
  "then_do (Raised e, s) f = (Raised e, s)"
  "then_do (Blocked, s) f = (Blocked, s)"
  by (simp_all add: then_do_def)


lemma train_loop_append:
  "train_loop c (xs @ ys) s = then_do (train_loop c xs s) (train_loop c ys)"
proof (induction xs arbitrary: s)
  case Nil
  show ?case by simp
next
  case (Cons i xs)
  show ?case
  proof (cases "iteration c i s")
    case (Pair st s1)
    then show ?thesis using Cons.IH [of s1] by (cases st) simp_all
  qed
qed

subsection \<open>Phases of a trace\<close>

lemma phases_append [simp]: "phases (xs @ ys) = phases xs @ phases ys"
  by (simp add: phases_def map_filter_def)

lemma phases_Nil [simp]: "phases [] = []"
  by (simp add: phases_def map_filter_def)

lemma phases_single [simp]: "phases [ev] = (case phase_of ev of None \<Rightarrow> [] | Some k \<Rightarrow> [k])"
  by (simp add: phases_def map_filter_def split: option.splits)

lemma emits_info: "emits [] (info msg arg)"
  by (auto simp add: emits_def info_def)

lemma emits_call_ext:
  "emits (case phase_of ev of None \<Rightarrow> [] | Some k \<Rightarrow> [k]) (call_ext ev f)"
  by (auto simp add: emits_def call_ext_def split: outcome.splits option.splits)

lemma emits_call_world:
  "emits (case phase_of ev of None \<Rightarrow> [] | Some k \<Rightarrow> [k]) (call_world ev f)"
  by (auto simp add: emits_def call_world_def split: outcome.splits option.splits)

lemma emits_then:
  assumes "emits ks f" "emits ks' g"
  shows "emits (ks @ ks') (\<lambda>s. then_do (f s) g)"
  unfolding emits_def
proof (intro allI impI)
  fix s st s'
  assume r: "then_do (f s) g = (st, s')"
  obtain st1 s1 where f: "f s = (st1, s1)" by (cases "f s")
  from assms(1) f obtain evs where e1: "trace s1 = trace s @ evs" "prefix (phases evs) ks"
    "st1 = Normal \<longrightarrow> phases evs = ks"
    unfolding emits_def by blast
  show "\<exists>evs. trace s' = trace s @ evs \<and> prefix (phases evs) (ks @ ks')
      \<and> (st = Normal \<longrightarrow> phases evs = ks @ ks')"
  proof (cases st1)
    case Normal
    with r f have g: "g s1 = (st, s')" by simp
    from assms(2) g obtain evs' where e2: "trace s' = trace s1 @ evs'" "prefix (phases evs') ks'"
      "st = Normal \<longrightarrow> phases evs' = ks'"
      unfolding emits_def by blast
    have "trace s' = trace s @ (evs @ evs')" using e1(1) e2(1) by simp
    moreover have "prefix (phases (evs @ evs')) (ks @ ks')" using e1(3) e2(2) Normal by simp
    moreover have "st = Normal \<longrightarrow> phases (evs @ evs') = ks @ ks'" using e1(3) e2(3) Normal by simp
    ultimately show ?thesis by blast
  next
    case (Raised e)
    with r f have "st = Raised e" "s' = s1" by simp_all
    then show ?thesis using e1 by (auto intro: prefix_prefix)
  next
    case Blocked
    with r f have "st = Blocked" "s' = s1" by simp_all
    then show ?thesis using e1 by (auto intro: prefix_prefix)
  qed
qed

lemma emits_run_steps_Nil: "emits [] (run_steps [])"
  by (simp add: emits_def)

lemma emits_run_steps_Cons:
  assumes "emits ks f" "emits ks' (run_steps fs)"
  shows "emits (ks @ ks') (run_steps (f # fs))"
  using emits_then [OF assms] by (simp add: emits_def)

lemma emits_assign_variables: "emits [] (assign_variables step it)"
  by (auto simp add: emits_def assign_variables_def)

lemma emits_log_model_id: "emits [] log_model_id"
  by (auto simp add: emits_def log_model_id_def info_def)

lemma emits_push_variables: "emits [PUBLISH] (push_variables c)"
  by (auto simp add: emits_def push_variables_def call_ext_def split: outcome.splits)

lemma emits_write_scalar: "emits [] (write_scalar c name)"
  by (auto simp add: emits_def write_scalar_def call_ext_def split: outcome.splits)

lemma emits_silent_ext:
  assumes "phase_of ev = None"
  shows "emits [] (call_ext ev f)"
  using emits_call_ext [of ev f] assms by simp

lemma emits_silent_world:
  assumes "phase_of ev = None"
  shows "emits [] (call_world ev f)"
  using emits_call_world [of ev f] assms by simp

lemma emits_create_agent:
  fixes c :: "('p, 'x) collab"
  shows "emits [] (create_agent c architecture)"
proof -
  have "emits ([] @ [] @ []) (run_steps [info ''Using GRL agent networks.'' None,
      call_ext (CreateGrlAgent :: 'p event) (create_circuit_ppo_grl_agent c)])"
    by (intro emits_run_steps_Cons emits_run_steps_Nil emits_info emits_silent_ext) simp
  moreover have "emits ([] @ [] @ []) (run_steps [info ''Using RL fully connected agent networks.'' None,
      call_ext (CreateAgent :: 'p event) (create_circuit_ppo_agent c)])"
    by (intro emits_run_steps_Cons emits_run_steps_Nil emits_info emits_silent_ext) simp
  ultimately show ?thesis by (simp add: create_agent_def)
qed

lemma emits_train_setup: "emits [PUBLISH] (train_setup c cfg init_iteration)"
proof -
  have "emits ([] @ [] @ [] @ [] @ [] @ [] @ [PUBLISH] @ [] @ [] @ [])
      (train_setup c cfg init_iteration)"
    unfolding train_setup_def
    by (intro emits_run_steps_Cons emits_run_steps_Nil emits_info emits_assign_variables
        emits_create_agent emits_push_variables emits_silent_ext emits_silent_world) simp_all
  then show ?thesis by simp
qed

lemma emits_iteration_phases: "emits [WAIT, TRAIN, PUBLISH, PURGE] (iteration_phases c i)"
proof -
  have w: "emits [WAIT] (call_world WaitForData (wait_for_data c))"
    using emits_call_world [of WaitForData "wait_for_data c"] by simp
  have r: "emits [TRAIN] (call_world Run (run c))"
    using emits_call_world [of Run "run c"] by simp
  have p: "emits [PURGE] (call_ext Clear (clear c))"
    using emits_call_ext [of Clear "clear c"] by simp
  have "emits ([] @ [WAIT] @ [] @ [TRAIN] @ [] @ [] @ [PUBLISH] @ [] @ [PURGE] @ [])
      (iteration_phases c i)"
    unfolding iteration_phases_def
    by (intro emits_run_steps_Cons emits_run_steps_Nil emits_info emits_log_model_id
        emits_push_variables w r p)
  then show ?thesis by simp
qed

lemma emits_iteration_summaries: "emits [] (iteration_summaries c)"
proof -
  have "emits ([] @ [] @ [] @ []) (iteration_summaries c)"
    unfolding iteration_summaries_def
    by (intro emits_run_steps_Cons emits_run_steps_Nil emits_write_scalar emits_silent_ext) simp
  then show ?thesis by simp
qed

lemma emits_iteration: "emits [WAIT, TRAIN, PUBLISH, PURGE] (iteration c i)"
proof -
  have "emits ([WAIT, TRAIN, PUBLISH, PURGE] @ []) (\<lambda>s. then_do (iteration_phases c i s) (iteration_summaries c))"
    using emits_iteration_phases emits_iteration_summaries by (rule emits_then)
  then show ?thesis by (simp add: emits_def iteration_def)
qed

lemma emits_train_loop:
  "emits (concat (map (\<lambda>i. [WAIT, TRAIN, PUBLISH, PURGE]) is)) (train_loop c is)"
proof (induction "is")
  case Nil
  show ?case by (simp add: emits_def)
next
  case (Cons i rest)
  have "emits ([WAIT, TRAIN, PUBLISH, PURGE] @ concat (map (\<lambda>i. [WAIT, TRAIN, PUBLISH, PURGE]) rest))
      (\<lambda>s. then_do (iteration c i s) (train_loop c rest))"
    using emits_iteration Cons.IH by (rule emits_then)
  then show ?case by (simp add: emits_def)
qed

lemma emits_setup_then_loop:
  "emits (PUBLISH # concat (map (\<lambda>i. [WAIT, TRAIN, PUBLISH, PURGE]) is))
     (\<lambda>s. then_do (train_setup c cfg i0 s) (train_loop c is))"
  using emits_then [OF emits_train_setup emits_train_loop] by simp

subsection \<open>Pushes of a trace\<close>

lemma pushes_append [simp]: "pushes (xs @ ys) = pushes xs @ pushes ys"
  by (simp add: pushes_def map_filter_def)

lemma pushes_Nil [simp]: "pushes [] = []"
  by (simp add: pushes_def map_filter_def)

lemma pushes_single [simp]: "pushes [ev] = (case pushed ev of None \<Rightarrow> [] | Some snap \<Rightarrow> [snap])"
  by (simp add: pushes_def map_filter_def split: option.splits)

lemma pushes_Cons [simp]:
  "pushes (ev # evs) = (case pushed ev of None \<Rightarrow> pushes evs | Some snap \<Rightarrow> snap # pushes evs)"
  by (simp add: pushes_def map_filter_def split: option.splits)

lemma phases_Cons [simp]:
  "phases (ev # evs) = (case phase_of ev of None \<Rightarrow> phases evs | Some k \<Rightarrow> k # phases evs)"
  by (simp add: phases_def map_filter_def split: option.splits)


subsection \<open>The learner of the specification\<close>

lemma spec_learner_simps [simp]:
  "num_replicas_in_sync (spec_learner steps c) = num_replicas_in_sync c"
  "create_learner (spec_learner steps c) = Returns"
  "wait_for_data (spec_learner steps c) = Returns"
  "run (spec_learner steps c) = spec_run steps"
  "push (spec_learner steps c) = push c"
  "clear (spec_learner steps c) = clear c"
  "collect_policy_variables (spec_learner steps c) = collect_policy_variables c"
  by (simp_all add: spec_learner_def)




subsection \<open>Concrete values\<close>

lemma init_iteration_default:
  "compute_init_iteration 0 100 1024 4 (Some 32) 8 = Returns 0"
  using compute_init_iteration_small [of 0 32 8 100 1024 4] by simp

lemma upto_0_0: "[0..(0::int)] = [0]"
  by (simp add: upto_rec1)

lemma int_truediv_zero_divisor: "int_truediv n 0 = Raises ZeroDivisionError"
  by (simp add: int_truediv_def)

lemma float_truediv_zero_divisor: "float_truediv x 0 = Raises ZeroDivisionError"
  by (simp add: float_truediv_def float_of_int_def binary64_zero finite64_def)

lemma int_truediv_cases:
  "(\<exists>q. int_truediv n s = Returns q) \<or> int_truediv n s = Raises ZeroDivisionError
    \<or> int_truediv n s = Raises OverflowError"
  by (simp add: int_truediv_def Let_def)

lemma float_truediv_cases:
  "(\<exists>q. float_truediv x n = Returns q) \<or> float_truediv x n = Raises ZeroDivisionError
    \<or> float_truediv x n = Raises OverflowError"
  by (cases "finite64 (binary64 (of_int n))")
    (simp_all add: float_truediv_def float_of_int_def Let_def)

lemma compute_init_iteration_zero_divisor:
  assumes "s = 0 \<or> e = 0 \<or> p = 0"
  shows "compute_init_iteration a s e p k r = Raises TypeError
    \<or> compute_init_iteration a s e p k r = Raises ZeroDivisionError
    \<or> compute_init_iteration a s e p k r = Raises OverflowError"
proof (cases k)
  case None
  then show ?thesis by (simp add: compute_init_iteration_def)
next
  case (Some b)
  from int_truediv_cases [of "a * b * r" s]
  consider q1 where "int_truediv (a * b * r) s = Returns q1"
    | "int_truediv (a * b * r) s = Raises ZeroDivisionError"
    | "int_truediv (a * b * r) s = Raises OverflowError"
    by blast
  then show ?thesis
  proof cases
    case 1
    then have s: "s \<noteq> 0" by (auto simp add: int_truediv_def)
    from float_truediv_cases [of q1 e]
    consider q2 where "float_truediv q1 e = Returns q2"
      | "float_truediv q1 e = Raises ZeroDivisionError"
      | "float_truediv q1 e = Raises OverflowError"
      by blast
    then show ?thesis
    proof cases
      case (1 q2)
      then have e: "e \<noteq> 0" by (auto simp add: float_truediv_zero_divisor)
      with s assms have "p = 0" by simp
      then show ?thesis
        using Some \<open>int_truediv (a * b * r) s = Returns q1\<close> 1
        by (simp add: compute_init_iteration_def float_truediv_zero_divisor)
    next
      case 2
      then show ?thesis using Some \<open>int_truediv (a * b * r) s = Returns q1\<close>
        by (simp add: compute_init_iteration_def)
    next
      case 3
      then show ?thesis using Some \<open>int_truediv (a * b * r) s = Returns q1\<close>
        by (simp add: compute_init_iteration_def)
    qed
  next
    case 2
    then show ?thesis using Some by (simp add: compute_init_iteration_def)
  next
    case 3
    then show ?thesis using Some by (simp add: compute_init_iteration_def)
  qed
qed

lemma init_iteration_negative_length:
  "compute_init_iteration 0 (- 100) 1024 4 (Some 32) 8 = Returns 0"
  by (simp add: compute_init_iteration_def int_truediv_def binary64_zero finite64_def
      float_truediv_small int_of_float_def)


lemmas train_unfold =
  train_def default_config_def quiet_collab_def train_setup_def create_agent_def iteration_def
  iteration_phases_def iteration_summaries_def push_variables_def write_scalar_def
  log_model_id_def call_ext_def call_world_def info_def assign_variables_def
  current_snapshot_def start_def

lemma upto_0_1: "[0..(1::int)] = [0, 1]"
  by (simp add: upto_rec1)

lemma upto_empty_1: "[1..(0::int)] = []"
  by simp

lemma train_zero_length:
  "train (quiet_collab 8) (default_config 0) () = (Raised ZeroDivisionError, start ())"
  by (simp add: train_def default_config_def quiet_collab_def compute_init_iteration_def
      int_truediv_zero_divisor)

lemma train_two_iterations:
  "fst (train (quiet_collab 8) ((default_config 100)\<lparr>num_iterations := 2\<rparr>) ()) = Normal
   \<and> phases (trace (snd (train (quiet_collab 8) ((default_config 100)\<lparr>num_iterations := 2\<rparr>) ())))
       = [PUBLISH, WAIT, TRAIN, PUBLISH, PURGE, WAIT, TRAIN, PUBLISH, PURGE]"
  by (simp add: train_unfold init_iteration_default upto_0_1)




lemma failing_phases:
  "iteration_phases failing_summaries 0 (start ())
   = (Normal,
      \<lparr>vars = \<lparr>train_step = 0, model_id = 0, ext = ()\<rparr>,
       trace =
         [Info ''Training. Iteration: %d'' (Some 0),
          WaitForData,
          Info ''Data wait time sec: %s'' None,
          Run,
          Info ''Steps per sec: %s'' None,
          Info ''Pushing variables at model_id: %d'' (Some 0),
          Push \<lparr>snap_policy = (), snap_train_step = 0, snap_model_id = 0\<rparr>,
          Info ''clearing replay buffer'' None,
          Clear]\<rparr>)"
  by (simp add: failing_summaries_def train_unfold)

lemma failing_write:
  "iteration_summaries failing_summaries s = (Raised (Fault ''summary write failed''), s)"
  by (simp add: failing_summaries_def train_unfold)

section \<open>Claims about the training driver\<close>




text \<open>
  Claim C2. In every iteration of the loop the four phases occur in the order wait, train,
  push, clear, and the clear happens once per iteration, after that iteration's training
  and before the next iteration waits. Whatever the collaborators do, the phases of a run
  are a prefix of the initial push followed by \<open>WAIT, TRAIN, PUBLISH, PURGE\<close> for each index of
  the loop, and all of it when the run completes.
\<close>

theorem train_phase_order:
  assumes "compute_init_iteration (init_train_step cfg) (sequence_length cfg)
             (num_episodes_per_iteration cfg) (num_epochs cfg) (per_replica_batch_size cfg)
             (num_replicas_in_sync c) = Returns i0"
  shows "prefix (phases (trace (snd (train c cfg x))))
           (PUBLISH # concat (map (\<lambda>i. [WAIT, TRAIN, PUBLISH, PURGE]) [i0..num_iterations cfg - 1]))
       \<and> (fst (train c cfg x) = Normal \<longrightarrow>
           phases (trace (snd (train c cfg x))) =
             PUBLISH # concat (map (\<lambda>i. [WAIT, TRAIN, PUBLISH, PURGE]) [i0..num_iterations cfg - 1]))"
proof -
  obtain st s' where r: "train c cfg x = (st, s')" by (cases "train c cfg x")
  then have "then_do (train_setup c cfg i0 (start x)) (train_loop c [i0..num_iterations cfg - 1]) = (st, s')"
    using assms by (simp add: train_def)
  with emits_setup_then_loop [of "[i0..num_iterations cfg - 1]" c cfg i0]
  obtain evs where "trace s' = trace (start x) @ evs"
    "prefix (phases evs) (PUBLISH # concat (map (\<lambda>i. [WAIT, TRAIN, PUBLISH, PURGE]) [i0..num_iterations cfg - 1]))"
    "st = Normal \<longrightarrow> phases evs = PUBLISH # concat (map (\<lambda>i. [WAIT, TRAIN, PUBLISH, PURGE]) [i0..num_iterations cfg - 1])"
    unfolding emits_def by blast
  then show ?thesis using r by (simp add: start_def)
qed

theorem train_phase_order_witness:
  "phases (trace (snd (train (quiet_collab 8) ((default_config 100)\<lparr>num_iterations := 2\<rparr>) ())))
     = [PUBLISH, WAIT, TRAIN, PUBLISH, PURGE, WAIT, TRAIN, PUBLISH, PURGE]"
  using train_phase_order [of "(default_config 100)\<lparr>num_iterations := 2\<rparr>" "quiet_collab 8" 0 "()"]
    init_iteration_default train_two_iterations
  by (simp add: default_config_def quiet_collab_def upto_0_1)

text \<open>
  Claim C4, as stated: a non-positive \<open>sequence_length\<close>, \<open>num_episodes_per_iteration\<close> or
  \<open>num_epochs\<close> is detected before the loop and is fatal with a descriptive cause. Nothing
  in \<open>train\<close> or \<open>compute_init_iteration\<close> checks these arguments: with
  \<open>sequence_length = -100\<close> the run completes and its loop body is executed.
\<close>

theorem train_negative_length_counterexample:
  "fst (train (quiet_collab 8) ((default_config (- 100))\<lparr>num_iterations := 1\<rparr>) ()) = Normal
   \<and> phases (trace (snd (train (quiet_collab 8) ((default_config (- 100))\<lparr>num_iterations := 1\<rparr>) ())))
       = [PUBLISH, WAIT, TRAIN, PUBLISH, PURGE]"
  by (simp add: train_unfold init_iteration_negative_length upto_0_0)

text \<open>
  Claim C4, amended: if \<open>sequence_length\<close>, \<open>num_episodes_per_iteration\<close> or \<open>num_epochs\<close> is
  zero, \<open>compute_init_iteration\<close> raises \<open>ZeroDivisionError\<close> (or \<open>TypeError\<close> or
  \<open>OverflowError\<close>, when the multiplication or an earlier division fails first) and \<open>train\<close>
  ends with that exception before it calls any collaborator: nothing is pushed and no
  iteration runs.
\<close>

theorem train_zero_divisor:
  assumes "sequence_length cfg = 0 \<or> num_episodes_per_iteration cfg = 0 \<or> num_epochs cfg = 0"
  shows "(fst (train c cfg x) = Raised ZeroDivisionError
          \<or> fst (train c cfg x) = Raised OverflowError
          \<or> fst (train c cfg x) = Raised TypeError)
       \<and> trace (snd (train c cfg x)) = []"
  using compute_init_iteration_zero_divisor [OF assms, of "init_train_step cfg"
      "per_replica_batch_size cfg" "num_replicas_in_sync c"]
  by (auto simp add: train_def start_def)

theorem train_zero_divisor_witness:
  "fst (train (quiet_collab 8) (default_config 0) ()) = Raised ZeroDivisionError
   \<and> trace (snd (train (quiet_collab 8) (default_config 0) ())) = ([] :: unit event list)"
  using train_zero_divisor [of "default_config 0" "quiet_collab 8" "()"] train_zero_length
  by (simp add: default_config_def start_def)

text \<open>
  Claim C7, as stated: a failure of the instrumentation of an iteration is logged and
  swallowed, and training goes on to the next iteration. The loop has no handler: when the
  summary writer raises, a run that should make two iterations ends with that exception
  after the first clear.
\<close>

theorem train_summary_failure_counterexample:
  "fst (train failing_summaries ((default_config 100)\<lparr>num_iterations := 2\<rparr>) ())
     = Raised (Fault ''summary write failed'')
   \<and> phases (trace (snd (train failing_summaries ((default_config 100)\<lparr>num_iterations := 2\<rparr>) ())))
     = [PUBLISH, WAIT, TRAIN, PUBLISH, PURGE]"
  by (simp add: failing_summaries_def train_unfold init_iteration_default upto_0_1)

text \<open>
  Claim C7, amended: when the phases of an iteration have completed and one of its summary
  writes or the flush raises, the exception ends the loop there: the push and the clear of
  that iteration have happened, and no later iteration runs.
\<close>

theorem summary_failure_aborts_loop:
  assumes "train_loop c before s0 = (Normal, s)"
    and "iteration_phases c i s = (Normal, s1)"
    and "iteration_summaries c s1 = (Raised e, s2)"
  shows "train_loop c (before @ i # rest) s0 = (Raised e, s2)"
  using assms by (simp add: train_loop_append iteration_def)

theorem summary_failure_aborts_loop_witness:
  "train_loop failing_summaries [0, 1] (start ())
   = (Raised (Fault ''summary write failed''),
      \<lparr>vars = \<lparr>train_step = 0, model_id = 0, ext = ()\<rparr>,
       trace =
         [Info ''Training. Iteration: %d'' (Some 0),
          WaitForData,
          Info ''Data wait time sec: %s'' None,
          Run,
          Info ''Steps per sec: %s'' None,
          Info ''Pushing variables at model_id: %d'' (Some 0),
          Push \<lparr>snap_policy = (), snap_train_step = 0, snap_model_id = 0\<rparr>,
          Info ''clearing replay buffer'' None,
          Clear]\<rparr>)"
  using summary_failure_aborts_loop [of failing_summaries "[]" "start ()" "start ()" 0 _ _ _ "[1]",
      OF _ failing_phases failing_write]
  by simp



end
